theory Spec2Isabelle
  imports Main "HOL-Library.Sublist" "HOL-Library.AList" "HOL-Library.FSet" "HOL-Library.Char_ord"
    "HOL-Library.List_Lexorder"
begin

section \<open>Python strings\<close>

text \<open>
  Python \<open>str\<close> values are modelled as \<open>string\<close>: lists of characters, each character a
  code point below 256 (ASCII and Latin-1). \<open>needle in hay\<close> on strings is the
  contiguous-substring test, which is \<^const>\<open>sublist\<close>; \<open>s.startswith(p)\<close> is
  \<^const>\<open>prefix\<close> and \<open>s.endswith(p)\<close> is \<^const>\<open>suffix\<close>. A string is truthy when it is
  not empty, and an absent value (\<open>None\<close>) is falsy.
\<close>

text \<open>
  \<open>str.lower()\<close>: the upper-case letters below 256 are \<open>A\<close> to \<open>Z\<close> and the Latin-1 letters
  \<open>0xC0\<close> to \<open>0xDE\<close> without the multiplication sign \<open>0xD7\<close>; each has its lower-case
  letter 32 places further.
\<close>

definition ascii_uppercase :: string where
  "ascii_uppercase = ''ABCDEFGHIJKLMNOPQRSTUVWXYZ''"

definition ascii_lowercase :: string where
  "ascii_lowercase = ''abcdefghijklmnopqrstuvwxyz''"

definition latin1_uppercase :: string where
  "latin1_uppercase = [CHR 0xC0, CHR 0xC1, CHR 0xC2, CHR 0xC3, CHR 0xC4, CHR 0xC5, CHR 0xC6,
     CHR 0xC7, CHR 0xC8, CHR 0xC9, CHR 0xCA, CHR 0xCB, CHR 0xCC, CHR 0xCD, CHR 0xCE, CHR 0xCF,
     CHR 0xD0, CHR 0xD1, CHR 0xD2, CHR 0xD3, CHR 0xD4, CHR 0xD5, CHR 0xD6,
     CHR 0xD8, CHR 0xD9, CHR 0xDA, CHR 0xDB, CHR 0xDC, CHR 0xDD, CHR 0xDE]"

definition latin1_lowercase :: string where
  "latin1_lowercase = [CHR 0xE0, CHR 0xE1, CHR 0xE2, CHR 0xE3, CHR 0xE4, CHR 0xE5, CHR 0xE6,
     CHR 0xE7, CHR 0xE8, CHR 0xE9, CHR 0xEA, CHR 0xEB, CHR 0xEC, CHR 0xED, CHR 0xEE, CHR 0xEF,
     CHR 0xF0, CHR 0xF1, CHR 0xF2, CHR 0xF3, CHR 0xF4, CHR 0xF5, CHR 0xF6,
     CHR 0xF8, CHR 0xF9, CHR 0xFA, CHR 0xFB, CHR 0xFC, CHR 0xFD, CHR 0xFE]"

definition lower_char :: "char \<Rightarrow> char" where
  "lower_char c =
     (case map_of (zip ascii_uppercase ascii_lowercase) c of
        Some d \<Rightarrow> d
      | None \<Rightarrow>
          (case map_of (zip latin1_uppercase latin1_lowercase) c of
             Some d \<Rightarrow> d
           | None \<Rightarrow> c))"

definition lower :: "string \<Rightarrow> string" where
  "lower s = map lower_char s"

definition truthy :: "string option \<Rightarrow> bool" where
  "truthy v = (case v of None \<Rightarrow> False | Some s \<Rightarrow> s \<noteq> [])"

text \<open>\<open>v or ""\<close> for an optional string \<open>v\<close>.\<close>

definition or_empty :: "string option \<Rightarrow> string" where
  "or_empty v = (case v of None \<Rightarrow> [] | Some s \<Rightarrow> s)"

text \<open>
  \<open>str.strip()\<close> removes the whitespace at both ends; the whitespace characters below
  256 are the ASCII ones, the next-line control \<open>0x85\<close> and the no-break space \<open>0xA0\<close>.
\<close>

definition isspace :: "char \<Rightarrow> bool" where
  "isspace c = (c \<in> set [CHR 0x09, CHR 0x0A, CHR 0x0B, CHR 0x0C, CHR 0x0D,
     CHR 0x1C, CHR 0x1D, CHR 0x1E, CHR 0x1F, CHR 0x20, CHR 0x85, CHR 0xA0])"

definition strip :: "string \<Rightarrow> string" where
  "strip s = rev (dropWhile isspace (rev (dropWhile isspace s)))"

section \<open>The resilient fetcher (\<open>fetch_text\<close> of scrape\_auctionhouse.py)\<close>

text \<open>
  The network is outside the program. A session is modelled by the list of URLs it has
  requested so far, and the network by a function that tells, for such a history and a
  URL, how the next request ends: with an exception (\<open>Inl\<close>; \<open>session.get\<close> or
  \<open>raise_for_status\<close> raised) or with the text of the response (\<open>Inr\<close>). Every call of
  \<open>session.get\<close> appends its URL to the history, so that two requests of one URL may
  end differently. The sleep between two attempts, of \<open>1.5 ** (attempt - 1)\<close> seconds,
  has no effect on the result and is left out.
\<close>

type_synonym exc = string
type_synonym history = "string list"
type_synonym network = "history \<Rightarrow> string \<Rightarrow> exc + string"

text \<open>
  The exceptions that the program raises itself or lets through:
  \<open>RuntimeError(f"Failed to fetch {url}: {last_error}")\<close> of \<open>fetch_text\<close>, with the URL
  and the last underlying error (\<open>None\<close> when no attempt was made); the \<open>ValueError\<close>
  of \<open>urllib.parse\<close>; the \<open>ValueError\<close> and the \<open>OverflowError\<close> of \<open>time.sleep\<close>; and
  \<open>FetchError\<close> of \<open>fetch_content\<close>, with the URL and the cause.
\<close>

datatype exception =
  RuntimeError string "exc option" | ValueError | OverflowError | FetchError string exc

text \<open>
  The \<open>for attempt in range(1, retries + 1)\<close> loop, as a recursion on the attempts still
  to be made. A successful attempt returns at once; a failed one records the exception
  in \<open>last_error\<close>, and leaves the loop when \<open>attempt >= retries\<close>. After the loop the
  function raises.
\<close>

fun fetch_attempts ::
  "network \<Rightarrow> string \<Rightarrow> int \<Rightarrow> int list \<Rightarrow> exc option \<Rightarrow> history \<Rightarrow> (exception + string) \<times> history"
where
  "fetch_attempts net url retries [] last_error hist = (Inl (RuntimeError url last_error), hist)"
| "fetch_attempts net url retries (attempt # rest) last_error hist =
     (case net hist url of
        Inr text \<Rightarrow> (Inr text, hist @ [url])
      | Inl exc \<Rightarrow>
          if attempt \<ge> retries then (Inl (RuntimeError url (Some exc)), hist @ [url])
          else fetch_attempts net url retries rest (Some exc) (hist @ [url]))"

definition fetch_text :: "network \<Rightarrow> string \<Rightarrow> int \<Rightarrow> history \<Rightarrow> (exception + string) \<times> history" where
  "fetch_text net url retries hist = fetch_attempts net url retries [1..retries] None hist"

text \<open>How the \<open>i\<close>-th further request of \<open>url\<close> (counting from 0) ends after \<open>hist\<close>.\<close>

definition outcome :: "network \<Rightarrow> history \<Rightarrow> string \<Rightarrow> nat \<Rightarrow> exc + string" where
  "outcome net hist url i = net (hist @ replicate i url) url"

section \<open>The availability classifier (\<open>is_for_sale\<close>)\<close>

record PropertyRecord =
  url :: string
  title :: "string option"
  address :: "string option"
  guide_price :: "string option"
  status :: "string option"
  auction_date :: "string option"
  lot_number :: "string option"

definition sold_flags :: "string list" where
  "sold_flags = [''sold'', ''exchanged'', ''withdrawn'', ''completed'', ''contracted'']"

definition is_for_sale :: "PropertyRecord \<Rightarrow> bool" where
  "is_for_sale record =
     (let status = lower (or_empty (status record)) in
      if status \<noteq> [] \<and> list_ex (\<lambda>flag. sublist flag status) sold_flags then False
      else if truthy (guide_price record) then True
      else status = [])"

section \<open>Merging the two extraction layers (\<open>parse_lot_page\<close> of scrape\_national\_lots.py)\<close>

text \<open>
  A Python \<open>dict\<close> of strings is an association list with distinct keys, in insertion
  order. \<open>d.get(k)\<close> is \<open>map_of d k\<close>, and \<open>d[k] = v\<close> is \<open>AList.update k v d\<close>: the value
  is replaced in place when the key is there, and the pair is appended otherwise.
\<close>

type_synonym dict = "(string \<times> string) list"

text \<open>\<open>d.update(items)\<close>.\<close>

fun dict_update :: "dict \<Rightarrow> (string \<times> string) list \<Rightarrow> dict" where
  "dict_update d [] = d"
| "dict_update d ((k, v) # items) = dict_update (AList.update k v d) items"

text \<open>
  The loop \<open>for key, value in html_fallbacks.items(): if value and not details.get(key):
  details[key] = value\<close>.
\<close>

fun fill_absent :: "dict \<Rightarrow> (string \<times> string) list \<Rightarrow> dict" where
  "fill_absent details [] = details"
| "fill_absent details ((key, val) # items) =
     fill_absent
       (if val \<noteq> [] \<and> \<not> truthy (map_of details key) then AList.update key val details
        else details)
       items"

text \<open>
  \<open>parse_lot_page\<close>. The two extractors read the page through an HTML parser and a JSON
  parser that are not part of the repository; their results, the dictionaries
  \<open>_extract_from_json_ld(json_ld)\<close> and \<open>_extract_from_html(soup)\<close>, are the arguments
  \<open>structured\<close> and \<open>html_fallbacks\<close> here.
\<close>

definition parse_lot_page :: "dict \<Rightarrow> dict \<Rightarrow> string \<Rightarrow> dict" where
  "parse_lot_page structured html_fallbacks lot_url =
     fill_absent
       (dict_update [(''url'', lot_url)] (filter (\<lambda>(k, v). v \<noteq> []) structured))
       html_fallbacks"


text \<open>
  The merge rule in the words of the specification: the structured value if present and
  not empty, else the heuristic value if present and not empty, else absent.
\<close>

definition merged_value :: "dict \<Rightarrow> dict \<Rightarrow> string \<Rightarrow> string option" where
  "merged_value structured heuristic k =
     (if truthy (map_of structured k) then map_of structured k
      else if truthy (map_of heuristic k) then map_of heuristic k
      else None)"

section \<open>URLs: \<open>urlparse\<close> and the canonical form\<close>

text \<open>
  \<open>urllib.parse.urlparse\<close> belongs to the Python standard library, not to the repository.
  It is modelled here after its source (CPython 3.11): leading control characters and
  spaces are stripped and tabs and newlines removed; a scheme is split off when the text
  before the first colon starts with an ASCII letter and consists of scheme characters;
  a network location follows a leading \<open>//\<close> up to the next \<open>/\<close>, \<open>?\<close> or \<open>#\<close>; the
  fragment and the query are cut at the first \<open>#\<close> and \<open>?\<close>; for the schemes that use
  them, the parameters of the last path segment are cut at its first \<open>;\<close>.

  \<open>urlparse\<close> raises \<open>ValueError\<close> for a network location with only one of the square
  brackets, and for one with both when the bracketed host is not an IPv6 or IPvFuture
  address. That last test reads the address with the \<open>ipaddress\<close> module; it is the
  parameter \<open>check_bracketed\<close> of the model, which tells whether the library accepts
  the network location. (The library's further test of a network location under NFKC
  normalization never fails for characters below 256.)
\<close>

definition ascii_letters :: string where
  "ascii_letters = ascii_lowercase @ ascii_uppercase"

definition scheme_chars :: string where
  "scheme_chars = ascii_letters @ ''0123456789+-.''"

definition uses_params :: "string list" where
  "uses_params = ['''', ''ftp'', ''hdl'', ''prospero'', ''http'', ''imap'', ''https'', ''shttp'',
     ''rtsp'', ''rtsps'', ''rtspu'', ''sip'', ''sips'', ''mms'', ''sftp'', ''tel'']"

definition c0_control_or_space :: "char \<Rightarrow> bool" where
  "c0_control_or_space c = ((of_char c :: nat) \<le> 32)"

definition unsafe_url_byte :: "char \<Rightarrow> bool" where
  "unsafe_url_byte c = (c = CHR 0x09 \<or> c = CHR 0x0A \<or> c = CHR 0x0D)"

text \<open>\<open>s.split(c, 1)\<close> for a string that contains \<open>c\<close>: the text before the first \<open>c\<close> and the text after it.\<close>

definition split_first :: "char \<Rightarrow> string \<Rightarrow> string \<times> string" where
  "split_first c s = (takeWhile (\<lambda>x. x \<noteq> c) s, drop 1 (dropWhile (\<lambda>x. x \<noteq> c) s))"

text \<open>
  The scheme and the rest, as \<open>urlsplit\<close> finds them: \<open>url.find(':') > 0\<close>, the first
  character a letter and all characters before the colon scheme characters; the scheme
  is lower-cased. Without a scheme the scheme is empty and the text is left as it is.
\<close>

definition split_scheme :: "string \<Rightarrow> string \<times> string" where
  "split_scheme u =
     (let pre = takeWhile (\<lambda>c. c \<noteq> CHR '':'') u in
      if CHR '':'' \<in> set u \<and> pre \<noteq> [] \<and> hd u \<in> set ascii_letters
         \<and> list_all (\<lambda>c. c \<in> set scheme_chars) pre
      then (lower pre, drop (length pre + 1) u)
      else ([], u))"

text \<open>\<open>_splitnetloc(url, 2)\<close>: the text after \<open>//\<close> up to the first of \<open>/\<close>, \<open>?\<close>, \<open>#\<close>, and the rest.\<close>

definition splitnetloc :: "string \<Rightarrow> string \<times> string" where
  "splitnetloc u =
     (takeWhile (\<lambda>c. c \<notin> set ''/?#'') (drop 2 u), dropWhile (\<lambda>c. c \<notin> set ''/?#'') (drop 2 u))"

text \<open>The test of the square brackets of a network location: whether \<open>urlsplit\<close> raises.\<close>

definition invalid_netloc :: "(string \<Rightarrow> bool) \<Rightarrow> string \<Rightarrow> bool" where
  "invalid_netloc check_bracketed net =
     (if CHR ''['' \<in> set net
      then (if CHR '']'' \<in> set net then \<not> check_bracketed net else True)
      else CHR '']'' \<in> set net)"

text \<open>
  \<open>_splitparams\<close>: the first \<open>;\<close> after the last \<open>/\<close> (or the first \<open>;\<close> of a path without
  \<open>/\<close>) separates the path from the parameters; without one the path is unchanged.
\<close>

definition last_segment :: "string \<Rightarrow> string" where
  "last_segment p = rev (takeWhile (\<lambda>c. c \<noteq> CHR ''/'') (rev p))"

definition splitparams :: "string \<Rightarrow> string \<times> string" where
  "splitparams p =
     (let seg = last_segment p; dir = rev (dropWhile (\<lambda>c. c \<noteq> CHR ''/'') (rev p)) in
      if CHR '';'' \<in> set seg
      then (dir @ takeWhile (\<lambda>c. c \<noteq> CHR '';'') seg, drop 1 (dropWhile (\<lambda>c. c \<noteq> CHR '';'') seg))
      else (p, []))"

record ParseResult =
  scheme :: string
  netloc :: string
  path :: string
  params :: string
  query :: string
  fragment :: string

definition urlparse :: "(string \<Rightarrow> bool) \<Rightarrow> string \<Rightarrow> exception + ParseResult" where
  "urlparse check_bracketed u0 =
     (let u1 = filter (\<lambda>c. \<not> unsafe_url_byte c) (dropWhile c0_control_or_space u0);
          (sch, u2) = split_scheme u1;
          (net, u3) = (if take 2 u2 = ''//'' then splitnetloc u2 else ([], u2))
      in if invalid_netloc check_bracketed net then Inl ValueError
         else
           let (u4, frag) = (if CHR ''#'' \<in> set u3 then split_first (CHR ''#'') u3 else (u3, []));
               (u5, qry) = (if CHR ''?'' \<in> set u4 then split_first (CHR ''?'') u4 else (u4, []));
               (u6, par) = (if sch \<in> set uses_params \<and> CHR '';'' \<in> set u5 then splitparams u5
                            else (u5, []))
           in Inr \<lparr>scheme = sch, netloc = net, path = u6, params = par, query = qry,
                    fragment = frag\<rparr>)"

text \<open>
  The canonical form, as \<open>find_lot_links\<close> builds it from an absolute URL:
  \<open>f"{parsed.scheme}://{parsed.netloc}{parsed.path}"\<close>.
\<close>

definition canonical_form :: "ParseResult \<Rightarrow> string" where
  "canonical_form parsed = scheme parsed @ ''://'' @ netloc parsed @ path parsed"

definition canonical :: "(string \<Rightarrow> bool) \<Rightarrow> string \<Rightarrow> exception + string" where
  "canonical check_bracketed absolute =
     (case urlparse check_bracketed absolute of
        Inl e \<Rightarrow> Inl e
      | Inr parsed \<Rightarrow> Inr (canonical_form parsed))"

text \<open>Auxiliary notions for the proofs: what the parts of a parsed URL look like.\<close>

definition good_scheme :: "string \<Rightarrow> bool" where
  "good_scheme s = (s \<noteq> [] \<and> hd s \<in> set ascii_letters \<and> lower s = s \<and>
     list_all (\<lambda>c. c \<in> set scheme_chars \<and> c \<noteq> CHR '':'' \<and> \<not> c0_control_or_space c \<and> \<not> unsafe_url_byte c) s)"

definition plain_rest :: "string \<Rightarrow> string \<Rightarrow> string \<Rightarrow> bool" where
  "plain_rest s n p =
     ((\<forall>c\<in>set n. c \<notin> set ''/?#'' \<and> \<not> unsafe_url_byte c) \<and>
      (\<forall>c\<in>set p. c \<noteq> CHR ''#'' \<and> c \<noteq> CHR ''?'' \<and> \<not> unsafe_url_byte c) \<and>
      (n \<noteq> [] \<longrightarrow> p = [] \<or> hd p = CHR ''/'') \<and>
      (s \<in> set uses_params \<longrightarrow> CHR '';'' \<notin> set (last_segment p)))"

section \<open>Landing-page link discovery (\<open>find_lot_links\<close> of scrape\_national\_lots.py)\<close>

text \<open>
  The HTML parser and \<open>urljoin\<close> are outside the repository and are parameters of the
  model: \<open>anchor_hrefs html\<close> is the list of the \<open>href\<close> attributes of the elements that
  \<open>soup.select("a[href]")\<close> finds, in document order, and \<open>urljoin base_url href\<close> resolves
  a reference against the base URL or raises \<open>ValueError\<close>, as \<open>urlparse\<close> does on which
  it is built. The loop over the anchors keeps the list \<open>links\<close> and the set \<open>seen\<close>; an
  exception of \<open>urljoin\<close> or \<open>urlparse\<close> is not caught and ends the function.
\<close>

definition NATIONAL_URL :: string where
  "NATIONAL_URL = ''https://www.auctionhouse.co.uk/national''"

definition LOT_PATH_MARKER :: string where
  "LOT_PATH_MARKER = ''/lot/details/''"

definition LISTING_HOST :: string where
  "LISTING_HOST = ''online.auctionhouse.co.uk''"

fun lot_links_loop ::
  "(string \<Rightarrow> bool) \<Rightarrow> (string \<Rightarrow> string \<Rightarrow> exception + string) \<Rightarrow> string \<Rightarrow> string list
     \<Rightarrow> string list \<Rightarrow> string set \<Rightarrow> exception + string list"
where
  "lot_links_loop check_bracketed urljoin base_url [] links seen = Inr links"
| "lot_links_loop check_bracketed urljoin base_url (anchor # anchors) links seen =
     (let href = strip anchor in
      if \<not> sublist LOT_PATH_MARKER href
      then lot_links_loop check_bracketed urljoin base_url anchors links seen
      else
        case urljoin base_url href of
          Inl e \<Rightarrow> Inl e
        | Inr absolute \<Rightarrow>
            (case urlparse check_bracketed absolute of
               Inl e \<Rightarrow> Inl e
             | Inr parsed \<Rightarrow>
                 if \<not> sublist LISTING_HOST (netloc parsed)
                 then lot_links_loop check_bracketed urljoin base_url anchors links seen
                 else
                   let canonical = scheme parsed @ ''://'' @ netloc parsed @ path parsed in
                   if canonical \<notin> seen
                   then lot_links_loop check_bracketed urljoin base_url anchors
                          (links @ [canonical]) (insert canonical seen)
                   else lot_links_loop check_bracketed urljoin base_url anchors links seen))"

definition find_lot_links ::
  "(string \<Rightarrow> bool) \<Rightarrow> (string \<Rightarrow> string list) \<Rightarrow> (string \<Rightarrow> string \<Rightarrow> exception + string) \<Rightarrow> string
     \<Rightarrow> string \<Rightarrow> exception + string list"
where
  "find_lot_links check_bracketed anchor_hrefs urljoin html base_url =
     lot_links_loop check_bracketed urljoin base_url (anchor_hrefs html) [] {}"






section \<open>Sitemap discovery (\<open>iter_sitemap_property_urls\<close> of scrape\_auctionhouse.py)\<close>

text \<open>
  \<open>looks_like_property_url\<close>: the lower-cased path of the URL contains a listing marker.
  The \<open>ValueError\<close> of \<open>urlparse\<close> is not caught.
\<close>

definition looks_like_property_url :: "(string \<Rightarrow> bool) \<Rightarrow> string \<Rightarrow> exception + bool" where
  "looks_like_property_url check_bracketed u =
     (case urlparse check_bracketed u of
        Inl e \<Rightarrow> Inl e
      | Inr parsed \<Rightarrow>
          (let path = lower (path parsed) in
           Inr (sublist ''/property/'' path \<or> sublist ''/properties/'' path)))"

text \<open>
  \<open>xml.etree.ElementTree\<close> is outside the repository. What the traversal reads of a
  parsed document is the tag of its root and the texts of its \<open>loc\<close> elements
  (\<open>root.findall(".//{*}loc")\<close>, in document order; the text of an empty element is
  \<open>None\<close>). The parser is a parameter \<open>fromstring\<close> of the model, with \<open>None\<close> for a
  \<open>ParseError\<close>.
\<close>

record element =
  tag :: string
  loc_texts :: "string option list"

text \<open>
  The state of the traversal: the stack \<open>to_visit\<close> (its top is the last element), the
  sets \<open>visited\<close> and \<open>property_urls\<close>, and the effects on the outside: the requests
  the session has made, and the calls of \<open>fetch_text\<close> made so far (each announced by
  \<open>logging.info("Fetching sitemap: %s", current)\<close>), with their results.
\<close>

record traversal =
  to_visit :: "string list"
  visited :: "string fset"
  property_urls :: "string fset"
  session :: history
  fetched :: "(string \<times> (exception + string)) list"

text \<open>The loop over the entries of a sitemap index.\<close>

fun enqueue_children :: "int \<Rightarrow> string fset \<Rightarrow> string option list \<Rightarrow> string list \<Rightarrow> string list" where
  "enqueue_children max_nested vis [] tv = tv"
| "enqueue_children max_nested vis (loc # locs) tv =
     (let loc_text = strip (or_empty loc) in
      if loc_text = [] \<or> loc_text |\<in>| vis then enqueue_children max_nested vis locs tv
      else if int (fcard vis) + int (length tv) \<ge> max_nested
      then enqueue_children max_nested vis locs tv
      else if suffix ''.xml'' loc_text then enqueue_children max_nested vis locs (tv @ [loc_text])
      else enqueue_children max_nested vis locs tv)"

text \<open>
  The loop over the entries of any other document. It ends with the exception of
  \<open>looks_like_property_url\<close> at the first entry on which that function raises.
\<close>

fun add_property_urls ::
  "(string \<Rightarrow> bool) \<Rightarrow> string option list \<Rightarrow> string fset \<Rightarrow> exception + string fset"
where
  "add_property_urls check_bracketed [] urls = Inr urls"
| "add_property_urls check_bracketed (loc # locs) urls =
     (let loc_text = strip (or_empty loc) in
      if loc_text = [] then add_property_urls check_bracketed locs urls
      else
        case looks_like_property_url check_bracketed loc_text of
          Inl e \<Rightarrow> Inl e
        | Inr looks \<Rightarrow>
            if looks then add_property_urls check_bracketed locs (finsert loc_text urls)
            else add_property_urls check_bracketed locs urls)"

text \<open>
  One iteration of \<open>while to_visit\<close>, for a stack that is not empty. The result is
  \<open>Some e\<close> when the iteration raises \<open>e\<close>. The call of \<open>fetch_text\<close> is not inside the
  \<open>try\<close>, which guards the XML parser only, so its error leaves the loop and the
  function, and so does the \<open>ValueError\<close> of \<open>looks_like_property_url\<close>.
\<close>

definition sitemap_step ::
  "(string \<Rightarrow> bool) \<Rightarrow> network \<Rightarrow> (string \<Rightarrow> element option) \<Rightarrow> int \<Rightarrow> traversal
     \<Rightarrow> exception option \<times> traversal"
where
  "sitemap_step check_bracketed net fromstring max_nested s =
     (let current = last (to_visit s);
          s1 = s\<lparr>to_visit := butlast (to_visit s)\<rparr>
      in if current |\<in>| visited s1 then (None, s1)
         else
           let s2 = s1\<lparr>visited := finsert current (visited s1)\<rparr>;
               (result, hist) = fetch_text net current 3 (session s2);
               s3 = s2\<lparr>session := hist, fetched := fetched s2 @ [(current, result)]\<rparr>
           in case result of
                Inl err \<Rightarrow> (Some err, s3)
              | Inr body \<Rightarrow>
                  (case fromstring body of
                     None \<Rightarrow> (None, s3)
                   | Some root \<Rightarrow>
                       if suffix ''sitemapindex'' (lower (tag root))
                       then (None, s3\<lparr>to_visit :=
                               enqueue_children max_nested (visited s3) (loc_texts root) (to_visit s3)\<rparr>)
                       else
                         (case add_property_urls check_bracketed (loc_texts root) (property_urls s3) of
                            Inl e \<Rightarrow> (Some e, s3)
                          | Inr urls \<Rightarrow> (None, s3\<lparr>property_urls := urls\<rparr>))))"

text \<open>
  The loop terminates: an iteration that visits a document uses up one of the
  \<open>max_nested\<close> places, and once they are used up the stack only shrinks.
\<close>

definition remaining :: "int \<Rightarrow> traversal \<Rightarrow> nat" where
  "remaining max_nested s = nat (max_nested - int (fcard (visited s)))"

lemma enqueue_children_full:
  "max_nested \<le> int (fcard vis) \<Longrightarrow> enqueue_children max_nested vis locs tv = tv"
  by (induction locs arbitrary: tv) (auto simp: Let_def)

lemma sitemap_step_decreases:
  assumes "to_visit s \<noteq> []" and "sitemap_step chk net fromstring max_nested s = (None, s')"
  shows "remaining max_nested s' < remaining max_nested s
       \<or> (remaining max_nested s' = remaining max_nested s \<and> length (to_visit s') < length (to_visit s))"
proof (cases "last (to_visit s) |\<in>| visited s")
  case True
  with assms show ?thesis by (auto simp: sitemap_step_def Let_def remaining_def)
next
  case False
  let ?v = "finsert (last (to_visit s)) (visited s)"
  have card: "fcard ?v = Suc (fcard (visited s))" using False by (simp add: fcard_finsert_disjoint)
  from assms(2) False have v': "visited s' = ?v"
    by (auto simp: sitemap_step_def Let_def split: prod.splits sum.splits option.splits if_splits)
  show ?thesis
  proof (cases "int (fcard (visited s)) < max_nested")
    case True
    then show ?thesis by (simp add: remaining_def v' card)
  next
    case full: False
    then have "max_nested \<le> int (fcard ?v)" by (simp add: card)
    with assms(2) False have "to_visit s' = butlast (to_visit s)"
      by (auto simp: sitemap_step_def Let_def enqueue_children_full
          split: prod.splits sum.splits option.splits if_splits)
    with assms(1) full show ?thesis by (simp add: remaining_def v' card)
  qed
qed

function sitemap_loop ::
  "(string \<Rightarrow> bool) \<Rightarrow> network \<Rightarrow> (string \<Rightarrow> element option) \<Rightarrow> int \<Rightarrow> traversal
     \<Rightarrow> exception option \<times> traversal"
where
  "sitemap_loop check_bracketed net fromstring max_nested s =
     (if to_visit s = [] then (None, s)
      else case sitemap_step check_bracketed net fromstring max_nested s of
             (Some err, s') \<Rightarrow> (Some err, s')
           | (None, s') \<Rightarrow> sitemap_loop check_bracketed net fromstring max_nested s')"
  by pat_completeness auto
termination
proof (relation "measures [\<lambda>(chk, net, fromstring, max_nested, s). remaining max_nested s,
                           \<lambda>(chk, net, fromstring, max_nested, s). length (to_visit s)]")
  show "wf (measures [\<lambda>(chk, net, fromstring, max_nested, s). remaining max_nested s,
                           \<lambda>(chk, net, fromstring, max_nested, s). length (to_visit s)])"
    by simp
next
  fix check_bracketed net fromstring max_nested s x y
  assume "to_visit s \<noteq> []" and "(x, y) = sitemap_step check_bracketed net fromstring max_nested s"
    and "x = None"
  then have "sitemap_step check_bracketed net fromstring max_nested s = (None, y)" by simp
  from sitemap_step_decreases [OF \<open>to_visit s \<noteq> []\<close> this]
  show "((check_bracketed, net, fromstring, max_nested, y), (check_bracketed, net, fromstring, max_nested, s))
       \<in> measures [\<lambda>(chk, net, fromstring, max_nested, s). remaining max_nested s,
                           \<lambda>(chk, net, fromstring, max_nested, s). length (to_visit s)]"
    by auto
qed

text \<open>
  \<open>iter_sitemap_property_urls\<close>, with the default of three retries for each fetch. The
  result is the exception raised or the sorted list of the URLs found, together with the
  final state of the traversal.
\<close>

definition iter_sitemap_property_urls ::
  "(string \<Rightarrow> bool) \<Rightarrow> network \<Rightarrow> (string \<Rightarrow> element option) \<Rightarrow> string \<Rightarrow> int \<Rightarrow> history
     \<Rightarrow> (exception + string list) \<times> traversal"
where
  "iter_sitemap_property_urls check_bracketed net fromstring root_sitemap max_nested hist =
     (case sitemap_loop check_bracketed net fromstring max_nested
             \<lparr>to_visit = [root_sitemap], visited = {||}, property_urls = {||},
              session = hist, fetched = []\<rparr> of
        (Some err, s) \<Rightarrow> (Inl err, s)
      | (None, s) \<Rightarrow> (Inr (sorted_list_of_fset (property_urls s)), s))"

text \<open>
  The entries of a document that count as listing URLs, and the listing URLs of the
  documents that were fetched, parsed, and are not sitemap indexes.
\<close>

definition listing_urls :: "(string \<Rightarrow> bool) \<Rightarrow> string option list \<Rightarrow> string list" where
  "listing_urls check_bracketed locs =
     filter (\<lambda>loc_text. looks_like_property_url check_bracketed loc_text = Inr True)
       (filter (\<lambda>loc_text. loc_text \<noteq> []) (map (\<lambda>loc. strip (or_empty loc)) locs))"

definition leaf_listing_urls ::
  "(string \<Rightarrow> bool) \<Rightarrow> (string \<Rightarrow> element option) \<Rightarrow> exception + string \<Rightarrow> string list"
where
  "leaf_listing_urls check_bracketed fromstring result =
     (case result of
        Inl err \<Rightarrow> []
      | Inr body \<Rightarrow>
          (case fromstring body of
             None \<Rightarrow> []
           | Some root \<Rightarrow>
               if suffix ''sitemapindex'' (lower (tag root)) then []
               else listing_urls check_bracketed (loc_texts root)))"

definition visited_leaf_urls ::
  "(string \<Rightarrow> bool) \<Rightarrow> (string \<Rightarrow> element option) \<Rightarrow> (string \<times> (exception + string)) list
     \<Rightarrow> string list"
where
  "visited_leaf_urls check_bracketed fromstring calls =
     concat (map (\<lambda>(u, result). leaf_listing_urls check_bracketed fromstring result) calls)"

text \<open>Auxiliary notion for the proofs: the invariant of the loop.\<close>

definition traversal_ok :: "(string \<Rightarrow> bool) \<Rightarrow> (string \<Rightarrow> element option) \<Rightarrow> traversal \<Rightarrow> bool" where
  "traversal_ok check_bracketed fromstring s =
     (distinct (map fst (fetched s)) \<and>
      (\<forall>c\<in>set (fetched s). fst c |\<in>| visited s) \<and>
      fset (property_urls s) = set (visited_leaf_urls check_bracketed fromstring (fetched s)))"

section \<open>The sitemap pipeline (\<open>run\<close> of scrape\_auctionhouse.py)\<close>

text \<open>
  \<open>parse_property_page\<close>. The six \<open>extract_*\<close> functions read the page through an HTML
  parser that is outside the repository; \<open>extract html\<close> stands for the fields they find,
  or for the exception they raise, and \<open>parse_property_page\<close> puts the URL of the page in
  the record.
\<close>

definition parse_property_page ::
  "(string \<Rightarrow> exc + PropertyRecord) \<Rightarrow> string \<Rightarrow> string \<Rightarrow> exc + PropertyRecord"
where
  "parse_property_page extract html page_url =
     (case extract html of
        Inl e \<Rightarrow> Inl e
      | Inr found \<Rightarrow> Inr (found\<lparr>url := page_url\<rparr>))"

text \<open>
  The loop of \<open>run\<close> over the property URLs: a page whose fetch or parse raises is
  skipped (\<open>except Exception: continue\<close>); a record is appended when
  \<open>args.include_sold or is_for_sale(record)\<close>. After a page that was fetched and parsed
  comes \<open>time.sleep(args.delay)\<close>, outside the \<open>try\<close>. \<open>time.sleep\<close> is a parameter of the
  model: \<open>sleep delay\<close> is \<open>None\<close> when the call returns and \<open>Some e\<close> when it raises \<open>e\<close>, as
  it does for a negative delay; the exception ends the loop and \<open>run\<close>. The delay is of
  any type, since the code only hands it to \<open>time.sleep\<close>.
\<close>

fun collect_records ::
  "network \<Rightarrow> (string \<Rightarrow> exc + PropertyRecord) \<Rightarrow> ('d \<Rightarrow> exception option) \<Rightarrow> bool \<Rightarrow> 'd
     \<Rightarrow> string list \<Rightarrow> PropertyRecord list \<Rightarrow> history
     \<Rightarrow> (exception + PropertyRecord list) \<times> history"
where
  "collect_records net extract sleep include_sold delay [] records hist = (Inr records, hist)"
| "collect_records net extract sleep include_sold delay (u # urls) records hist =
     (case fetch_text net u 3 hist of
        (Inl err, h) \<Rightarrow> collect_records net extract sleep include_sold delay urls records h
      | (Inr html, h) \<Rightarrow>
          (case parse_property_page extract html u of
             Inl e \<Rightarrow> collect_records net extract sleep include_sold delay urls records h
           | Inr record \<Rightarrow>
               let records = (if include_sold \<or> is_for_sale record then records @ [record]
                              else records)
               in case sleep delay of
                    Some e \<Rightarrow> (Inl e, h)
                  | None \<Rightarrow> collect_records net extract sleep include_sold delay urls records h))"

text \<open>\<open>xs[:n]\<close>, also for a negative \<open>n\<close>.\<close>

definition slice_to :: "int \<Rightarrow> 'a list \<Rightarrow> 'a list" where
  "slice_to n xs = (if n \<ge> 0 then take (nat n) xs else take (length xs - nat (- n)) xs)"

text \<open>
  \<open>write_csv\<close> of scrape\_auctionhouse.py: the file as its list of rows, the header first;
  a field that is \<open>None\<close> is written as the empty string.
\<close>

definition to_row :: "PropertyRecord \<Rightarrow> string list" where
  "to_row r = [url r, or_empty (title r), or_empty (address r), or_empty (guide_price r),
     or_empty (status r), or_empty (auction_date r), or_empty (lot_number r)]"

definition write_csv :: "PropertyRecord list \<Rightarrow> string list list" where
  "write_csv records =
     [''url'', ''title'', ''address'', ''guide_price'', ''status'', ''auction_date'', ''lot_number'']
       # map to_row records"

text \<open>\<open>if args.limit: property_urls = property_urls[: args.limit]\<close>.\<close>

definition limit_urls :: "int option \<Rightarrow> string list \<Rightarrow> string list" where
  "limit_urls limit urls =
     (case limit of None \<Rightarrow> urls | Some n \<Rightarrow> if n \<noteq> 0 then slice_to n urls else urls)"

text \<open>
  \<open>run\<close>: the exit code returned or the exception raised, and the file written, if any.
  An exception of the discovery, whatever it is, is caught and gives the exit code 1;
  an exception of \<open>time.sleep\<close> leaves \<open>run\<close> before \<open>write_csv\<close> is reached.
\<close>

definition run ::
  "(string \<Rightarrow> bool) \<Rightarrow> network \<Rightarrow> (string \<Rightarrow> element option) \<Rightarrow> (string \<Rightarrow> exc + PropertyRecord)
     \<Rightarrow> ('d \<Rightarrow> exception option) \<Rightarrow> string \<Rightarrow> int option \<Rightarrow> bool \<Rightarrow> 'd \<Rightarrow> history
     \<Rightarrow> (exception + int) \<times> string list list option"
where
  "run check_bracketed net fromstring extract sleep sitemap limit include_sold delay hist =
     (case iter_sitemap_property_urls check_bracketed net fromstring sitemap 100 hist of
        (Inl err, s) \<Rightarrow> (Inr 1, None)
      | (Inr found_urls, s) \<Rightarrow>
          let limited_urls = limit_urls limit found_urls
          in case collect_records net extract sleep include_sold delay limited_urls [] (session s) of
               (Inl e, h) \<Rightarrow> (Inl e, None)
             | (Inr records, h) \<Rightarrow> (Inr 0, Some (write_csv records)))"


section \<open>The national pipeline (\<open>scrape_national_lots\<close>)\<close>







section \<open>Example inputs\<close>

text \<open>A network whose first two requests time out and whose third one succeeds.\<close>

definition flaky :: network where
  "flaky hist u = (if length hist < 2 then Inl ''timeout'' else Inr ''<html/>'')"

text \<open>A network on which every request fails, each time with another error.\<close>

definition down :: network where
  "down hist u =
     (if length hist = 0 then Inl ''error 1''
      else if length hist = 1 then Inl ''error 2'' else Inl ''error 3'')"

definition bidding_open :: PropertyRecord where
  "bidding_open = \<lparr>url = ''https://www.auctionhouse.co.uk/property/1'', title = None,
     address = None, guide_price = None, status = Some ''Bidding Open'',
     auction_date = None, lot_number = None\<rparr>"

text \<open>
  The results of the two extractors on a lot page: the structured layer gives a price, a
  status and an empty title, the heuristic layer a lot number, another price and a title.
\<close>

definition structured_lot :: dict where
  "structured_lot = [(''title'', ''''), (''guide_price'', ''120000''), (''status'', ''InStock'')]"

definition heuristic_lot :: dict where
  "heuristic_lot = [(''lot_number'', ''42''), (''guide_price'', ''POA''), (''auction_date'', ''''),
     (''status'', ''''), (''title'', ''Flat 2'')]"

definition lot_url_1 :: string where
  "lot_url_1 = ''https://online.auctionhouse.co.uk/lot/details/1''"

text \<open>An absolute URL of a lot page with parameters, a query and a fragment.\<close>

definition absolute_lot :: string where
  "absolute_lot = ''HTTPS://online.auctionhouse.co.uk/lot/details/12;v=2?ref=home#photos''"

text \<open>
  The test of a bracketed host is reached only for a network location with both
  brackets, which none of the examples has. The examples use a test that accepts no
  host.
\<close>

definition reject_bracketed :: "string \<Rightarrow> bool" where
  "reject_bracketed net = False"

text \<open>
  \<open>time.sleep\<close> and the truth value of a delay, for a delay that is an integer: a
  negative delay raises \<open>ValueError\<close>.
\<close>

definition example_sleep :: "int \<Rightarrow> exception option" where
  "example_sleep delay = (if delay < 0 then Some ValueError else None)"


text \<open>
  A small site: the root is an index that lists two sitemaps and itself; the sitemaps
  hold two and one listing URLs among other entries, one of them between a no-break
  space and a space. On \<open>broken_site\<close> the second sitemap cannot be fetched, and on
  \<open>unparsable_site\<close> it is not XML; on \<open>query_site\<close> the root is a sitemap with two
  entries that differ in their query only; on \<open>bracket_site\<close> the root is a sitemap with
  an entry that \<open>urlparse\<close> refuses.
\<close>

definition root_url :: string where
  "root_url = ''https://www.auctionhouse.co.uk/sitemap.xml''"

definition sitemap_a :: string where
  "sitemap_a = ''https://www.auctionhouse.co.uk/sitemap-a.xml''"

definition sitemap_b :: string where
  "sitemap_b = ''https://www.auctionhouse.co.uk/sitemap-b.xml''"

definition example_fromstring :: "string \<Rightarrow> element option" where
  "example_fromstring body =
     (if body = ''index'' then
        Some \<lparr>tag = ''{http://www.sitemaps.org/schemas/sitemap/0.9}sitemapindex'',
              loc_texts = [Some sitemap_a, Some sitemap_b, Some root_url]\<rparr>
      else if body = ''leaf a'' then
        Some \<lparr>tag = ''{http://www.sitemaps.org/schemas/sitemap/0.9}urlset'',
              loc_texts = [Some ''https://www.auctionhouse.co.uk/property/2'',
                           Some ''https://www.auctionhouse.co.uk/about'',
                           Some (CHR 0xA0 # ''https://www.auctionhouse.co.uk/property/1 ''), None]\<rparr>
      else if body = ''leaf b'' then
        Some \<lparr>tag = ''{http://www.sitemaps.org/schemas/sitemap/0.9}urlset'',
              loc_texts = [Some ''https://www.auctionhouse.co.uk/properties/3'']\<rparr>
      else if body = ''leaf q'' then
        Some \<lparr>tag = ''urlset'',
              loc_texts = [Some ''https://www.auctionhouse.co.uk/property/1?ref=a'',
                           Some ''https://www.auctionhouse.co.uk/property/1?ref=b'']\<rparr>
      else if body = ''leaf x'' then
        Some \<lparr>tag = ''urlset'',
              loc_texts = [Some ''https://www.auctionhouse.co.uk/property/1'',
                           Some ''https://h]/property/2'']\<rparr>
      else None)"

definition example_site :: network where
  "example_site hist u =
     (if u = root_url then Inr ''index''
      else if u = sitemap_a then Inr ''leaf a''
      else if u = sitemap_b then Inr ''leaf b''
      else Inl ''HTTP 404'')"

definition broken_site :: network where
  "broken_site hist u =
     (if u = root_url then Inr ''index''
      else if u = sitemap_a then Inr ''leaf a''
      else Inl ''HTTP 503'')"

definition unparsable_site :: network where
  "unparsable_site hist u =
     (if u = root_url then Inr ''index''
      else if u = sitemap_a then Inr ''leaf a''
      else Inr ''<html>'')"

definition query_site :: network where
  "query_site hist u = Inr ''leaf q''"

definition bracket_site :: network where
  "bracket_site hist u = Inr ''leaf x''"


definition example_hrefs :: "string \<Rightarrow> string list" where
  "example_hrefs html =
     (if html = ''landing''
      then [''/national'', ''https://online.auctionhouse.co.uk/lot/details/1?ref=national'',
            '' https://online.auctionhouse.co.uk/lot/details/1#photos'',
            ''https://www.auctionhouse.co.uk/lot/details/7'']
      else if html = ''lookalike''
      then [''https://online.auctionhouse.co.uk.example.org/lot/details/1'',
            ''https://ONLINE.AUCTIONHOUSE.CO.UK/lot/details/2'']
      else if html = ''bracket''
      then [''https://online.auctionhouse.co.uk/lot/details/1'', ''https://h]/lot/details/9'']
      else [])"

definition example_urljoin :: "string \<Rightarrow> string \<Rightarrow> exception + string" where
  "example_urljoin base href =
     (case urlparse reject_bracketed href of
        Inl e \<Rightarrow> Inl e
      | Inr parsed \<Rightarrow>
          Inr (if scheme parsed = [] then ''https://www.auctionhouse.co.uk'' @ href else href))"




text \<open>The example site with the pages of its properties, and what is read from them.\<close>

definition property_site :: network where
  "property_site hist u =
     (if u = ''https://www.auctionhouse.co.uk/property/1'' then Inr ''page 1''
      else if u = ''https://www.auctionhouse.co.uk/property/2'' then Inr ''page 2''
      else example_site hist u)"

definition example_extract :: "string \<Rightarrow> exc + PropertyRecord" where
  "example_extract html =
     (if html = ''page 1'' then
        Inr \<lparr>url = [], title = Some ''1 High Street'', address = None,
             guide_price = Some ''100,000'', status = Some ''Sold STC'', auction_date = None,
             lot_number = None\<rparr>
      else if html = ''page 2'' then
        Inr \<lparr>url = [], title = Some ''2 High Street'', address = None,
             guide_price = Some ''150,000'', status = None, auction_date = None,
             lot_number = None\<rparr>
      else Inl ''not a property page'')"

section \<open>Properties of the fetcher\<close>

lemma outcome_0: "outcome net hist u 0 = net hist u"
  by (simp add: outcome_def)

lemma outcome_Suc: "outcome net (hist @ [u]) u i = outcome net hist u (Suc i)"
  by (simp add: outcome_def replicate_app_Cons_same)

lemma upto_1_3: "[1..3] = [1, 2, 3::int]"
  by (simp add: upto_rec1)

text \<open>
  The loop over the attempts \<open>a, \<dots>, r\<close> that are left: it makes \<open>k\<close> requests, between
  one and the number of attempts left; the first \<open>k - 1\<close> fail; when the last one
  succeeds its text is returned, and when it fails it was the attempt number \<open>r\<close> and
  its exception is the one reported.
\<close>

lemma fetch_attempts_spec:
  "a \<le> r \<Longrightarrow>
   \<exists>k. 0 < k \<and> int k \<le> r - a + 1 \<and>
       snd (fetch_attempts net u r [a..r] le0 hist) = hist @ replicate k u \<and>
       (\<forall>i<k - 1. isl (outcome net hist u i)) \<and>
       (case outcome net hist u (k - 1) of
          Inr body \<Rightarrow> fst (fetch_attempts net u r [a..r] le0 hist) = Inr body
        | Inl exc \<Rightarrow> int k = r - a + 1 \<and>
            fst (fetch_attempts net u r [a..r] le0 hist) = Inl (RuntimeError u (Some exc)))"
proof (induction "nat (r - a)" arbitrary: a le0 hist)
  case 0
  then have ar: "a = r" by simp
  have up: "[r..r] = [r]" by (simp add: upto_rec1)
  show ?case
    by (rule exI [of _ 1]) (simp add: ar up outcome_0 split: sum.splits)
next
  case (Suc n)
  then have lt: "a < r" and n: "n = nat (r - (a + 1))" and le: "a + 1 \<le> r" by simp_all
  have up: "[a..r] = a # [a + 1..r]" using lt by (simp add: upto_rec1)
  show ?case
  proof (cases "net hist u")
    case (Inr body)
    with lt show ?thesis
      by (intro exI [of _ 1]) (simp add: up outcome_0)
  next
    case (Inl exc)
    from Suc.hyps(1) [OF n le, of "Some exc" "hist @ [u]"]
    obtain k where k: "0 < k" "int k \<le> r - (a + 1) + 1"
      "snd (fetch_attempts net u r [a + 1..r] (Some exc) (hist @ [u])) = (hist @ [u]) @ replicate k u"
      "\<forall>i<k - 1. isl (outcome net (hist @ [u]) u i)"
      "case outcome net (hist @ [u]) u (k - 1) of
          Inr body \<Rightarrow> fst (fetch_attempts net u r [a + 1..r] (Some exc) (hist @ [u])) = Inr body
        | Inl e \<Rightarrow> int k = r - (a + 1) + 1 \<and>
            fst (fetch_attempts net u r [a + 1..r] (Some exc) (hist @ [u])) = Inl (RuntimeError u (Some e))"
      by blast
    have step: "fetch_attempts net u r [a..r] le0 hist
        = fetch_attempts net u r [a + 1..r] (Some exc) (hist @ [u])"
      using lt Inl by (simp add: up)
    have failed: "\<forall>i<Suc k - 1. isl (outcome net hist u i)"
    proof (intro allI impI)
      fix i assume "i < Suc k - 1"
      show "isl (outcome net hist u i)"
      proof (cases i)
        case 0
        then show ?thesis using Inl by (simp add: outcome_0)
      next
        case (Suc j)
        with \<open>i < Suc k - 1\<close> have "j < k - 1" by simp
        with k(4) have "isl (outcome net (hist @ [u]) u j)" by blast
        then show ?thesis using Suc by (simp add: outcome_Suc)
      qed
    qed
    have final: "outcome net hist u (Suc k - 1) = outcome net (hist @ [u]) u (k - 1)"
      using k(1) by (simp add: outcome_Suc)
    show ?thesis
      apply (rule exI [of _ "Suc k"])
      apply (intro conjI)
      subgoal by simp
      subgoal using k(2) by simp
      subgoal using k(3) by (simp add: step replicate_app_Cons_same)
      subgoal using failed .
      subgoal using k(5) unfolding step final by (auto split: sum.splits)
      done
  qed
qed

text \<open>
  Claim C4. With a positive number of retries (3 by default), \<open>fetch_text\<close> makes \<open>k\<close>
  requests of the URL, with \<open>1 \<le> k \<le> retries\<close>. All requests before the last one
  failed. When the last request succeeds, the result is its text, whole: the text of the
  first successful attempt. When it fails, all \<open>retries\<close> attempts have been made and
  have failed, and the result is one \<open>RuntimeError\<close> that carries the URL and the
  exception of the last attempt, not an earlier one.
\<close>

theorem fetch_text_retries:
  assumes "0 < retries"
  shows "\<exists>k. 0 < k \<and> int k \<le> retries \<and>
       snd (fetch_text net u retries hist) = hist @ replicate k u \<and>
       (\<forall>i<k - 1. isl (outcome net hist u i)) \<and>
       (case outcome net hist u (k - 1) of
          Inr body \<Rightarrow> fst (fetch_text net u retries hist) = Inr body
        | Inl exc \<Rightarrow> int k = retries \<and>
            fst (fetch_text net u retries hist) = Inl (RuntimeError u (Some exc)))"
proof -
  have "1 \<le> retries" and eq: "retries - 1 + 1 = retries" using assms by simp_all
  from fetch_attempts_spec [OF this(1), of net u None hist] show ?thesis
    unfolding fetch_text_def eq .
qed

text \<open>
  The theorem at \<open>retries = 3\<close>: two failures and a success give the text after three
  requests, and three failures give the error of the third attempt.
\<close>

theorem fetch_text_retries_witness:
  "(0::int) < 3 \<and>
   fetch_text flaky ''u'' 3 [] = (Inr ''<html/>'', [''u'', ''u'', ''u'']) \<and>
   fetch_text down ''u'' 3 [] = (Inl (RuntimeError ''u'' (Some ''error 3'')), [''u'', ''u'', ''u''])"
  using fetch_text_retries [of 3 flaky "''u''" "[]"] fetch_text_retries [of 3 down "''u''" "[]"]
  by (simp add: fetch_text_def flaky_def down_def upto_1_3)

text \<open>
  Claim C10. With \<open>retries \<le> 0\<close> the range of attempts is empty: \<open>fetch_text\<close> makes no
  request (the history is unchanged) and raises the \<open>RuntimeError\<close> at once, with
  \<open>None\<close> as the last underlying error.
\<close>

theorem fetch_text_no_attempt:
  "retries \<le> 0 \<Longrightarrow> fetch_text net u retries hist = (Inl (RuntimeError u None), hist)"
  by (simp add: fetch_text_def)

theorem fetch_text_no_attempt_witness:
  "(0::int) \<le> 0 \<and> (-2::int) \<le> 0 \<and>
   fetch_text flaky ''u'' 0 [] = (Inl (RuntimeError ''u'' None), []) \<and>
   fetch_text flaky ''u'' (-2) [''v''] = (Inl (RuntimeError ''u'' None), [''v''])"
  using fetch_text_no_attempt [of 0 flaky "''u''" "[]"]
    fetch_text_no_attempt [of "-2" flaky "''u''" "[''v'']"]
  by simp

section \<open>Properties of the classifier\<close>

text \<open>
  Claim C1 as stated fails: the record with status \<open>Bidding Open\<close> and no guide price
  has a status that is present, not empty and free of the five words, and
  \<open>is_for_sale\<close> returns \<open>False\<close> for it (the last line of the function returns
  \<open>not status\<close>).
\<close>

theorem is_for_sale_bidding_open_counterexample:
  "status bidding_open = Some ''Bidding Open'' \<and> ''Bidding Open'' \<noteq> [] \<and>
   \<not> list_ex (\<lambda>flag. sublist flag (lower ''Bidding Open'')) sold_flags \<and>
   guide_price bidding_open = None \<and>
   \<not> is_for_sale bidding_open"
  by code_simp

text \<open>
  Claim C1, amended. For a record whose status is present, not empty and contains none
  of the five words as a case-insensitive substring, \<open>is_for_sale\<close> returns true exactly
  when the guide price is present and not empty.
\<close>

theorem is_for_sale_open_status:
  assumes "status r = Some s" and "s \<noteq> []"
    and "\<not> list_ex (\<lambda>flag. sublist flag (lower s)) sold_flags"
  shows "is_for_sale r = truthy (guide_price r)"
  using assms by (simp add: is_for_sale_def or_empty_def lower_def Let_def)

theorem is_for_sale_open_status_witness:
  "status (bidding_open\<lparr>guide_price := Some ''150,000''\<rparr>) = Some ''Bidding Open'' \<and>
   ''Bidding Open'' \<noteq> [] \<and>
   \<not> list_ex (\<lambda>flag. sublist flag (lower ''Bidding Open'')) sold_flags \<and>
   is_for_sale (bidding_open\<lparr>guide_price := Some ''150,000''\<rparr>) \<and>
   is_for_sale bidding_open = truthy (guide_price bidding_open)"
proof -
  have s: "status (bidding_open\<lparr>guide_price := Some ''150,000''\<rparr>) = Some ''Bidding Open''"
    "status bidding_open = Some ''Bidding Open''"
    by (simp_all add: bidding_open_def)
  have f: "\<not> list_ex (\<lambda>flag. sublist flag (lower ''Bidding Open'')) sold_flags"
    by code_simp
  have t: "truthy (guide_price (bidding_open\<lparr>guide_price := Some ''150,000''\<rparr>))"
    by (simp add: truthy_def)
  from is_for_sale_open_status [OF s(1) _ f] is_for_sale_open_status [OF s(2) _ f] s f t
  show ?thesis by simp
qed

section \<open>Properties of the merge\<close>

lemma map_of_dict_update:
  "distinct (map fst items) \<Longrightarrow>
   map_of (dict_update d items) k = (case map_of items k of Some v \<Rightarrow> Some v | None \<Rightarrow> map_of d k)"
proof (induction items arbitrary: d)
  case Nil
  then show ?case by simp
next
  case (Cons p items)
  obtain k' v' where p: "p = (k', v')" by (cases p)
  from Cons.prems have "k' \<notin> fst ` set items" and "distinct (map fst items)" by (auto simp: p)
  then have none: "map_of items k' = None" by (simp add: map_of_eq_None_iff)
  show ?case
    using Cons.IH [OF \<open>distinct (map fst items)\<close>, of "AList.update k' v' d"] none
    by (auto simp: p update_conv' split: option.splits)
qed

lemma map_of_filter_truthy:
  "distinct (map fst s) \<Longrightarrow>
   map_of (filter (\<lambda>(k, v). v \<noteq> []) s) k = (if truthy (map_of s k) then map_of s k else None)"
proof (induction s)
  case Nil
  then show ?case by (simp add: truthy_def)
next
  case (Cons p s)
  obtain k' v' where p: "p = (k', v')" by (cases p)
  from Cons.prems have "k' \<notin> fst ` set s" and d: "distinct (map fst s)" by (auto simp: p)
  then have none: "map_of s k' = None" by (simp add: map_of_eq_None_iff)
  show ?case using Cons.IH [OF d] none by (auto simp: p truthy_def)
qed

lemma map_of_fill_absent:
  "distinct (map fst h) \<Longrightarrow>
   map_of (fill_absent d h) k =
     (if truthy (map_of d k) then map_of d k
      else case map_of h k of
        Some v \<Rightarrow> if v \<noteq> [] then Some v else map_of d k
      | None \<Rightarrow> map_of d k)"
proof (induction h arbitrary: d)
  case Nil
  then show ?case by simp
next
  case (Cons p h)
  obtain k' v' where p: "p = (k', v')" by (cases p)
  from Cons.prems have "k' \<notin> fst ` set h" and dh: "distinct (map fst h)" by (auto simp: p)
  then have none: "map_of h k' = None" by (simp add: map_of_eq_None_iff)
  show ?case
    using none
    by (auto simp: p Cons.IH [OF dh] update_conv' truthy_def split: option.splits)
qed

text \<open>
  Claim C5. The field \<open>url\<close> is the URL of the page that was fetched: \<open>parse_lot_page\<close>
  starts from \<open>{"url": url}\<close>, and neither extractor supplies a \<open>url\<close> key. For every
  other field, which are the fields that the extractors fill, the merged value is the
  structured value when that is present and not empty, else the heuristic value when
  that is present and not empty, else absent; so a field with two different non-empty
  values takes the structured one. The maps of the extractors are Python dictionaries:
  no key occurs twice.
\<close>

theorem parse_lot_page_merge:
  assumes "distinct (map fst s)" and "distinct (map fst h)"
  shows "(k \<noteq> ''url'' \<longrightarrow> map_of (parse_lot_page s h u) k = merged_value s h k) \<and>
         (''url'' \<notin> fst ` set s \<and> ''url'' \<notin> fst ` set h \<longrightarrow>
            map_of (parse_lot_page s h u) ''url'' = Some u)"
proof (intro conjI impI)
  have df: "distinct (map fst (filter (\<lambda>(k, v). v \<noteq> []) s))"
    using assms(1) by (simp add: distinct_map_filter)
  let ?d = "dict_update [(''url'', u)] (filter (\<lambda>(k, v). v \<noteq> []) s)"
  { assume k: "k \<noteq> ''url''"
    have d: "map_of ?d k = (if truthy (map_of s k) then map_of s k else None)"
      using k by (auto simp: map_of_dict_update [OF df] map_of_filter_truthy [OF assms(1)]
          truthy_def split: option.splits)
    show "map_of (parse_lot_page s h u) k = merged_value s h k"
      unfolding parse_lot_page_def merged_value_def map_of_fill_absent [OF assms(2)] d
      by (auto simp: truthy_def split: option.splits) }
  { assume a: "''url'' \<notin> fst ` set s \<and> ''url'' \<notin> fst ` set h"
    then have "map_of s ''url'' = None" "map_of h ''url'' = None"
      by (simp_all add: map_of_eq_None_iff)
    then show "map_of (parse_lot_page s h u) ''url'' = Some u"
      unfolding parse_lot_page_def map_of_fill_absent [OF assms(2)]
      by (simp add: map_of_dict_update [OF df] map_of_filter_truthy [OF assms(1)] truthy_def) }
qed

theorem parse_lot_page_merge_witness:
  "distinct (map fst structured_lot) \<and> distinct (map fst heuristic_lot) \<and>
   map_of (parse_lot_page structured_lot heuristic_lot lot_url_1) ''guide_price'' = Some ''120000'' \<and>
   map_of (parse_lot_page structured_lot heuristic_lot lot_url_1) ''title'' = Some ''Flat 2'' \<and>
   map_of (parse_lot_page structured_lot heuristic_lot lot_url_1) ''auction_date'' = None \<and>
   map_of (parse_lot_page structured_lot heuristic_lot lot_url_1) ''url'' = Some lot_url_1"
  using parse_lot_page_merge [of structured_lot heuristic_lot "''guide_price''" lot_url_1]
    parse_lot_page_merge [of structured_lot heuristic_lot "''title''" lot_url_1]
    parse_lot_page_merge [of structured_lot heuristic_lot "''auction_date''" lot_url_1]
  by (simp add: structured_lot_def heuristic_lot_def merged_value_def truthy_def)

section \<open>Properties of the canonical form\<close>


lemma ascii_lower_cases:
  "map_of (zip ascii_uppercase ascii_lowercase) c = None \<or>
   (\<exists>d. map_of (zip ascii_uppercase ascii_lowercase) c = Some d \<and> d \<in> set ascii_lowercase)"
proof (cases "map_of (zip ascii_uppercase ascii_lowercase) c")
  case None
  then show ?thesis by (simp only: simp_thms)
next
  case (Some d)
  then have "(c, d) \<in> set (zip ascii_uppercase ascii_lowercase)" by (rule map_of_SomeD)
  then have "d \<in> set ascii_lowercase" by (rule set_zip_rightD)
  with Some show ?thesis by blast
qed

lemma ascii_not_latin1:
  "c \<in> set (ascii_lowercase @ ascii_uppercase @ ''0123456789+-.'') \<Longrightarrow> c \<notin> set latin1_uppercase"
  by (auto simp: ascii_lowercase_def ascii_uppercase_def latin1_uppercase_def)

lemma lowercase_not_uppercase:
  "d \<in> set ascii_lowercase \<Longrightarrow> d \<notin> set ascii_uppercase"
  by (auto simp: ascii_lowercase_def ascii_uppercase_def)

lemma latin1_None:
  assumes "c \<notin> set latin1_uppercase"
  shows "map_of (zip latin1_uppercase latin1_lowercase) c = None"
proof -
  have "length latin1_uppercase = length latin1_lowercase"
    by (simp add: latin1_uppercase_def latin1_lowercase_def)
  then show ?thesis using assms by (simp only: map_of_zip_is_None simp_thms)
qed

lemma lower_char_lowercase:
  assumes "d \<in> set ascii_lowercase"
  shows "lower_char d = d"
proof -
  have "length ascii_uppercase = length ascii_lowercase"
    by (simp add: ascii_uppercase_def ascii_lowercase_def)
  then have a: "map_of (zip ascii_uppercase ascii_lowercase) d = None"
    using lowercase_not_uppercase [OF assms] by (simp only: map_of_zip_is_None simp_thms)
  from assms have "d \<in> set (ascii_lowercase @ ascii_uppercase @ ''0123456789+-.'')" by simp
  then have "map_of (zip latin1_uppercase latin1_lowercase) d = None"
    by (intro latin1_None ascii_not_latin1)
  with a show ?thesis by (simp only: lower_char_def option.case)
qed

lemma lower_char_cases:
  assumes "c \<in> set scheme_chars"
  shows "lower_char c = c \<or> lower_char c \<in> set ascii_lowercase"
proof -
  from assms have "c \<in> set (ascii_lowercase @ ascii_uppercase @ ''0123456789+-.'')"
    by (simp add: scheme_chars_def ascii_letters_def)
  then have l: "map_of (zip latin1_uppercase latin1_lowercase) c = None"
    by (intro latin1_None ascii_not_latin1)
  from ascii_lower_cases [of c] show ?thesis
  proof
    assume "map_of (zip ascii_uppercase ascii_lowercase) c = None"
    with l show ?thesis by (simp only: lower_char_def option.case simp_thms)
  next
    assume "\<exists>d. map_of (zip ascii_uppercase ascii_lowercase) c = Some d \<and> d \<in> set ascii_lowercase"
    then show ?thesis by (auto simp only: lower_char_def option.case)
  qed
qed

lemma lowercase_scheme:
  "d \<in> set ascii_lowercase \<Longrightarrow> d \<in> set ascii_letters \<and> d \<in> set scheme_chars"
  by (simp add: scheme_chars_def ascii_letters_def)

lemma scheme_char_plain:
  "c \<in> set scheme_chars \<Longrightarrow>
   c \<noteq> CHR '':'' \<and> c \<noteq> CHR ''?'' \<and> c \<noteq> CHR ''#'' \<and> \<not> c0_control_or_space c \<and>
   \<not> unsafe_url_byte c"
  by (auto simp: scheme_chars_def ascii_letters_def ascii_lowercase_def ascii_uppercase_def
      c0_control_or_space_def unsafe_url_byte_def)

lemma lower_char_scheme:
  assumes "c \<in> set scheme_chars"
  shows "lower_char c \<in> set scheme_chars \<and> lower_char (lower_char c) = lower_char c \<and>
   lower_char c \<noteq> CHR '':'' \<and> \<not> c0_control_or_space (lower_char c) \<and>
   \<not> unsafe_url_byte (lower_char c)"
proof -
  from lower_char_cases [OF assms]
  have in_sc: "lower_char c \<in> set scheme_chars"
  proof
    assume "lower_char c = c"
    with assms show ?thesis by (simp only:)
  next
    assume "lower_char c \<in> set ascii_lowercase"
    then show ?thesis by (rule lowercase_scheme [THEN conjunct2])
  qed
  from lower_char_cases [OF assms]
  have idem: "lower_char (lower_char c) = lower_char c"
  proof
    assume "lower_char c = c"
    then show ?thesis by (simp only:)
  next
    assume "lower_char c \<in> set ascii_lowercase"
    then show ?thesis by (rule lower_char_lowercase)
  qed
  from in_sc idem scheme_char_plain [OF in_sc] show ?thesis by (simp only: simp_thms)
qed

lemma lower_char_letter:
  assumes "c \<in> set ascii_letters"
  shows "lower_char c \<in> set ascii_letters"
proof -
  from assms have "c \<in> set scheme_chars" by (simp add: scheme_chars_def)
  from lower_char_cases [OF this] show ?thesis
  proof
    assume "lower_char c = c"
    with assms show ?thesis by (simp only:)
  next
    assume "lower_char c \<in> set ascii_lowercase"
    then show ?thesis by (rule lowercase_scheme [THEN conjunct1])
  qed
qed

lemma split_scheme_good:
  assumes "split_scheme u = (s, r)" and "s \<noteq> []"
  shows "good_scheme s \<and> set r \<subseteq> set u"
proof -
  let ?pre = "takeWhile (\<lambda>c. c \<noteq> CHR '':'') u"
  from assms have c: "CHR '':'' \<in> set u" "?pre \<noteq> []" "hd u \<in> set ascii_letters"
      "list_all (\<lambda>c. c \<in> set scheme_chars) ?pre"
    and s: "s = lower ?pre" and r: "r = drop (length ?pre + 1) u"
    by (auto simp: split_scheme_def Let_def split: if_splits)
  have "hd ?pre = hd u" using c(2) by (cases u) (auto split: if_splits)
  then have "hd s \<in> set ascii_letters"
    using c(2,3) by (simp add: s lower_def hd_map lower_char_letter)
  moreover have "lower s = s"
    using c(4) by (simp add: s lower_def list_all_iff lower_char_scheme)
  moreover have "list_all (\<lambda>c. c \<in> set scheme_chars \<and> c \<noteq> CHR '':'' \<and> \<not> c0_control_or_space c \<and> \<not> unsafe_url_byte c) s"
    using c(4) by (simp add: s lower_def list_all_iff lower_char_scheme)
  moreover have "set r \<subseteq> set u" unfolding r by (rule set_drop_subset)
  ultimately show ?thesis using c(2) by (simp add: good_scheme_def s lower_def)
qed

lemma last_segment_suffix:
  "set (last_segment (dropWhile (\<lambda>c. c \<noteq> CHR ''/'') p)) \<subseteq> set (last_segment p)"
proof (cases "CHR ''/'' \<in> set p")
  case False
  then have e: "dropWhile (\<lambda>c. c \<noteq> CHR ''/'') p = []" by auto
  show ?thesis unfolding e by (simp add: last_segment_def)
next
  case True
  let ?a = "takeWhile (\<lambda>c. c \<noteq> CHR ''/'') p" and ?b = "dropWhile (\<lambda>c. c \<noteq> CHR ''/'') p"
  have p: "p = ?a @ ?b" by simp
  have "?b \<noteq> []" using True by auto
  then have "hd ?b = CHR ''/''" using hd_dropWhile [of "\<lambda>c. c \<noteq> CHR ''/''" p] by auto
  with \<open>?b \<noteq> []\<close> have "CHR ''/'' \<in> set (rev ?b)" by (metis hd_in_set set_rev)
  then have "takeWhile (\<lambda>c. c \<noteq> CHR ''/'') (rev ?b @ rev ?a) = takeWhile (\<lambda>c. c \<noteq> CHR ''/'') (rev ?b)"
    by (intro takeWhile_append1) auto
  moreover have "rev p = rev ?b @ rev ?a" by (subst p) (simp only: rev_append)
  ultimately show ?thesis by (simp add: last_segment_def)
qed

lemma takeWhile_dropWhile_Nil: "takeWhile P (dropWhile P xs) = []"
  by (induction xs) auto

lemma set_last_segment: "set (last_segment p) \<subseteq> set p"
  unfolding last_segment_def using set_takeWhileD by fastforce

lemma splitparams_fst:
  "CHR '';'' \<notin> set (last_segment (fst (splitparams p))) \<and> set (fst (splitparams p)) \<subseteq> set p"
proof (cases "CHR '';'' \<in> set (last_segment p)")
  case False
  then show ?thesis by (simp add: splitparams_def Let_def)
next
  case True
  let ?dir = "rev (dropWhile (\<lambda>c. c \<noteq> CHR ''/'') (rev p))"
  let ?t = "takeWhile (\<lambda>c. c \<noteq> CHR '';'') (last_segment p)"
  have f: "fst (splitparams p) = ?dir @ ?t" using True by (simp add: splitparams_def Let_def)
  have t: "\<forall>c\<in>set ?t. c \<noteq> CHR ''/'' \<and> c \<noteq> CHR '';''"
    by (auto simp: last_segment_def dest!: set_takeWhileD)
  have d: "takeWhile (\<lambda>c. c \<noteq> CHR ''/'') (rev ?dir) = []"
    by (simp add: takeWhile_dropWhile_Nil)
  have "takeWhile (\<lambda>c. c \<noteq> CHR ''/'') (rev ?t @ rev ?dir) = rev ?t @ takeWhile (\<lambda>c. c \<noteq> CHR ''/'') (rev ?dir)"
    by (intro takeWhile_append2) (use t in auto)
  then have "last_segment (?dir @ ?t) = ?t"
    unfolding last_segment_def rev_append d by simp
  moreover have "set ?dir \<subseteq> set p" using set_dropWhileD by fastforce
  moreover have "set ?t \<subseteq> set p" using set_takeWhileD set_last_segment by fastforce
  ultimately show ?thesis using t by (auto simp: f)
qed


lemma takeWhile_append_stop:
  "\<forall>x\<in>set s. P x \<Longrightarrow> \<not> P y \<Longrightarrow> takeWhile P (s @ y # r) = s"
  by (induction s) auto

lemma dropWhile_append_all:
  "\<forall>x\<in>set s. P x \<Longrightarrow> dropWhile P (s @ r) = dropWhile P r"
  by (induction s) auto

lemma takeWhile_append_all:
  "\<forall>x\<in>set s. P x \<Longrightarrow> takeWhile P (s @ r) = s @ takeWhile P r"
  by (induction s) auto

lemma urlparse_stages:
  fixes u0 :: string
  defines "u1 \<equiv> filter (\<lambda>c. \<not> unsafe_url_byte c) (dropWhile c0_control_or_space u0)"
  defines "ss \<equiv> split_scheme u1"
  defines "nr \<equiv> (if take 2 (snd ss) = ''//'' then splitnetloc (snd ss) else ([], snd ss))"
  defines "fq \<equiv> (if CHR ''#'' \<in> set (snd nr) then split_first (CHR ''#'') (snd nr) else (snd nr, []))"
  defines "qq \<equiv> (if CHR ''?'' \<in> set (fst fq) then split_first (CHR ''?'') (fst fq) else (fst fq, []))"
  defines "pp \<equiv> (if fst ss \<in> set uses_params \<and> CHR '';'' \<in> set (fst qq) then splitparams (fst qq)
                   else (fst qq, []))"
  shows "urlparse chk u0 =
           (if invalid_netloc chk (fst nr) then Inl ValueError
            else Inr \<lparr>scheme = fst ss, netloc = fst nr, path = fst pp, params = snd pp,
                   query = snd qq, fragment = snd fq\<rparr>)"
  unfolding pp_def qq_def fq_def nr_def ss_def u1_def
  by (simp only: urlparse_def Let_def case_prod_beta)

lemma splitparams_prefix: "prefix (fst (splitparams p)) p"
proof -
  let ?dir = "rev (dropWhile (\<lambda>c. c \<noteq> CHR ''/'') (rev p))"
  have "rev p = takeWhile (\<lambda>c. c \<noteq> CHR ''/'') (rev p) @ dropWhile (\<lambda>c. c \<noteq> CHR ''/'') (rev p)"
    by simp
  then have "rev (rev p) = rev (takeWhile (\<lambda>c. c \<noteq> CHR ''/'') (rev p) @ dropWhile (\<lambda>c. c \<noteq> CHR ''/'') (rev p))"
    by (rule arg_cong)
  then have p: "p = ?dir @ last_segment p"
    unfolding last_segment_def rev_append rev_rev_ident .
  have "prefix (?dir @ takeWhile (\<lambda>c. c \<noteq> CHR '';'') (last_segment p)) (?dir @ last_segment p)"
    by (simp add: takeWhile_is_prefix)
  with p have "prefix (?dir @ takeWhile (\<lambda>c. c \<noteq> CHR '';'') (last_segment p)) p" by simp
  then show ?thesis by (simp add: splitparams_def Let_def)
qed

lemma splitparams_slash:
  assumes "p \<noteq> []" and "hd p = CHR ''/''"
  shows "fst (splitparams p) \<noteq> [] \<and> hd (fst (splitparams p)) = CHR ''/''"
proof -
  let ?dir = "rev (dropWhile (\<lambda>c. c \<noteq> CHR ''/'') (rev p))"
  from assms have "CHR ''/'' \<in> set (rev p)" by (cases p) auto
  then have "dropWhile (\<lambda>c. c \<noteq> CHR ''/'') (rev p) \<noteq> []" by auto
  then have d: "?dir \<noteq> []" by simp
  have ne: "fst (splitparams p) \<noteq> []"
  proof (cases "CHR '';'' \<in> set (last_segment p)")
    case True
    with d show ?thesis by (simp add: splitparams_def Let_def)
  next
    case False
    with assms(1) show ?thesis by (simp add: splitparams_def Let_def)
  qed
  from splitparams_prefix [of p] obtain r where "p = fst (splitparams p) @ r"
    by (auto simp: prefix_def)
  with ne have "hd p = hd (fst (splitparams p))" using hd_append2 [of "fst (splitparams p)" r] by simp
  with ne assms show ?thesis by simp
qed


lemma urlparse_plain:
  assumes "urlparse chk u0 = Inr parsed"
  shows "scheme parsed \<noteq> [] \<Longrightarrow> good_scheme (scheme parsed)"
    and "plain_rest (scheme parsed) (netloc parsed) (path parsed)"
    and "\<not> invalid_netloc chk (netloc parsed)"
proof -
  define u1 where "u1 = filter (\<lambda>c. \<not> unsafe_url_byte c) (dropWhile c0_control_or_space u0)"
  define sch where "sch = fst (split_scheme u1)"
  define u2 where "u2 = snd (split_scheme u1)"
  define nr where "nr = (if take 2 u2 = ''//'' then splitnetloc u2 else ([], u2))"
  define net where "net = fst nr"
  define u3 where "u3 = snd nr"
  define fq where "fq = (if CHR ''#'' \<in> set u3 then split_first (CHR ''#'') u3 else (u3, []))"
  define u4 where "u4 = fst fq"
  define qq where "qq = (if CHR ''?'' \<in> set u4 then split_first (CHR ''?'') u4 else (u4, []))"
  define u5 where "u5 = fst qq"
  define pp where "pp = (if sch \<in> set uses_params \<and> CHR '';'' \<in> set u5 then splitparams u5 else (u5, []))"
  define u6 where "u6 = fst pp"
  have "urlparse chk u0 =
           (if invalid_netloc chk net then Inl ValueError
            else Inr \<lparr>scheme = sch, netloc = net, path = u6, params = snd pp,
                   query = snd qq, fragment = snd fq\<rparr>)"
    unfolding u6_def pp_def u5_def qq_def u4_def fq_def u3_def net_def nr_def sch_def u2_def u1_def
    by (rule urlparse_stages)
  with assms have valid: "\<not> invalid_netloc chk net"
    and f: "scheme parsed = sch" "netloc parsed = net" "path parsed = u6"
    by (auto split: if_splits)
  have e4: "u4 = (if CHR ''#'' \<in> set u3 then takeWhile (\<lambda>x. x \<noteq> CHR ''#'') u3 else u3)"
    by (simp add: u4_def fq_def split_first_def)
  have e5: "u5 = (if CHR ''?'' \<in> set u4 then takeWhile (\<lambda>x. x \<noteq> CHR ''?'') u4 else u4)"
    by (simp add: u5_def qq_def split_first_def)
  have e6: "u6 = (if sch \<in> set uses_params \<and> CHR '';'' \<in> set u5 then fst (splitparams u5) else u5)"
    by (simp add: u6_def pp_def)
  have ss: "split_scheme u1 = (sch, u2)" by (simp add: sch_def u2_def)
  have s2: "set u2 \<subseteq> set u1"
    by (auto simp: u2_def split_scheme_def Let_def dest: in_set_dropD)
  have safe1: "\<forall>c\<in>set u1. \<not> unsafe_url_byte c" by (simp add: u1_def)
  have net: "\<forall>c\<in>set net. c \<notin> set ''/?#'' \<and> c \<in> set u2"
    by (auto simp: net_def nr_def splitnetloc_def dest!: set_takeWhileD dest: in_set_dropD)
  have s3: "set u3 \<subseteq> set u2"
    by (auto simp: u3_def nr_def splitnetloc_def dest!: set_dropWhileD dest: in_set_dropD)
  have s4: "set u4 \<subseteq> set u3" and h4: "CHR ''#'' \<notin> set u4"
    by (auto simp: e4 dest: set_takeWhileD)
  have s5: "set u5 \<subseteq> set u4" and q5: "CHR ''?'' \<notin> set u5"
    by (auto simp: e5 dest: set_takeWhileD)
  have s6: "set u6 \<subseteq> set u5" using splitparams_fst [of u5] by (auto simp: e6)
  have l6: "sch \<in> set uses_params \<longrightarrow> CHR '';'' \<notin> set (last_segment u6)"
    using splitparams_fst [of u5] set_last_segment [of u5] by (auto simp: e6)
  have start: "net \<noteq> [] \<longrightarrow> u6 = [] \<or> hd u6 = CHR ''/''"
  proof
    assume "net \<noteq> []"
    then have u3: "u3 = dropWhile (\<lambda>c. c \<notin> set ''/?#'') (drop 2 u2)"
      by (auto simp: net_def u3_def nr_def splitnetloc_def split: if_splits)
    have h3: "u3 = [] \<or> hd u3 \<in> set ''/?#''"
      unfolding u3 using hd_dropWhile [of "\<lambda>c. c \<notin> set ''/?#''" "drop 2 u2"] by blast
    have h4': "u4 = [] \<or> hd u4 = CHR ''/'' \<or> hd u4 = CHR ''?''"
    proof (cases u3)
      case Nil
      then show ?thesis by (simp add: e4)
    next
      case (Cons x xs)
      with h3 show ?thesis by (auto simp: e4)
    qed
    have h5: "u5 = [] \<or> hd u5 = CHR ''/''"
    proof (cases u4)
      case Nil
      then show ?thesis by (simp add: e5)
    next
      case (Cons x xs)
      with h4' show ?thesis by (auto simp: e5)
    qed
    show "u6 = [] \<or> hd u6 = CHR ''/''"
    proof (cases "u5 = []")
      case True
      then show ?thesis by (simp add: e6)
    next
      case False
      with h5 splitparams_slash [of u5] show ?thesis by (auto simp: e6)
    qed
  qed
  have "plain_rest sch net u6"
    unfolding plain_rest_def
  proof (intro conjI ballI)
    fix c assume "c \<in> set net"
    with net s2 safe1 show "c \<notin> set ''/?#''" and "\<not> unsafe_url_byte c" by blast+
  next
    fix c assume "c \<in> set u6"
    with s6 s5 s4 s3 s2 have c: "c \<in> set u5" "c \<in> set u4" "c \<in> set u1" by blast+
    with h4 q5 safe1 show "c \<noteq> CHR ''#''" "c \<noteq> CHR ''?''" "\<not> unsafe_url_byte c" by blast+
  next
    show "net \<noteq> [] \<longrightarrow> u6 = [] \<or> hd u6 = CHR ''/''" by (rule start)
  next
    show "sch \<in> set uses_params \<longrightarrow> CHR '';'' \<notin> set (last_segment u6)" by (rule l6)
  qed
  then show "plain_rest (scheme parsed) (netloc parsed) (path parsed)" by (simp add: f)
  from valid show "\<not> invalid_netloc chk (netloc parsed)" by (simp add: f)
  show "good_scheme (scheme parsed)" if "scheme parsed \<noteq> []"
  proof -
    from that have "sch \<noteq> []" by (simp add: f)
    from split_scheme_good [OF ss this] show ?thesis by (simp add: f)
  qed
qed


lemma good_schemeD:
  assumes "good_scheme s"
  shows "s \<noteq> []" and "hd s \<in> set ascii_letters" and "lower s = s"
    and "\<And>c. c \<in> set s \<Longrightarrow> c \<in> set scheme_chars"
    and "\<And>c. c \<in> set s \<Longrightarrow> c \<noteq> CHR '':''"
    and "\<And>c. c \<in> set s \<Longrightarrow> \<not> c0_control_or_space c"
    and "\<And>c. c \<in> set s \<Longrightarrow> \<not> unsafe_url_byte c"
  using assms by (simp_all add: good_scheme_def list_all_iff)

lemma split_scheme_canonical:
  assumes gs: "good_scheme s"
  shows "split_scheme (s @ CHR '':'' # r) = (s, r)"
proof -
  note s = good_schemeD [OF gs]
  have tw: "takeWhile (\<lambda>c. c \<noteq> CHR '':'') (s @ CHR '':'' # r) = s"
    by (rule takeWhile_append_stop) (use s(5) in auto)
  have hd: "hd (s @ CHR '':'' # r) = hd s" using s(1) by simp
  have la: "list_all (\<lambda>c. c \<in> set scheme_chars) s" using s(4) by (simp add: list_all_iff)
  show ?thesis
    unfolding split_scheme_def tw Let_def hd
    using s(1,2,3) la by simp
qed

lemma clean_canonical:
  assumes gs: "good_scheme s" and r: "\<forall>c\<in>set r. \<not> unsafe_url_byte c"
  shows "filter (\<lambda>c. \<not> unsafe_url_byte c) (dropWhile c0_control_or_space (s @ r)) = s @ r"
proof -
  note s = good_schemeD [OF gs]
  obtain x xs where sx: "s = x # xs" using s(1) by (cases s) auto
  have "\<not> c0_control_or_space x" using s(6) [of x] by (simp add: sx)
  then have h1: "dropWhile c0_control_or_space (s @ r) = s @ r" by (simp add: sx)
  have "\<forall>c\<in>set (s @ r). \<not> unsafe_url_byte c" using s(7) r by auto
  then show ?thesis unfolding h1 by (simp only: filter_id_conv)
qed

lemma splitparams_none: "CHR '';'' \<notin> set (last_segment q) \<Longrightarrow> splitparams q = (q, [])"
  by (simp add: splitparams_def Let_def)

lemma splitnetloc_slashes:
  "splitnetloc (CHR ''/'' # CHR ''/'' # m) =
     (takeWhile (\<lambda>c. c \<notin> set ''/?#'') m, dropWhile (\<lambda>c. c \<notin> set ''/?#'') m)"
  by (simp add: splitnetloc_def)

lemma urlparse_canonical:
  assumes gs: "good_scheme s" and pr: "plain_rest s n p" and ne: "n \<noteq> []"
    and valid: "\<not> invalid_netloc chk n"
  shows "urlparse chk (s @ ''://'' @ n @ p) =
    Inr \<lparr>scheme = s, netloc = n, path = p, params = [], query = [], fragment = []\<rparr>"
proof -
  let ?nd = "\<lambda>c. c \<notin> set ''/?#''"
  let ?u = "s @ CHR '':'' # CHR ''/'' # CHR ''/'' # n @ p"
  from pr ne have n: "\<forall>c\<in>set n. ?nd c \<and> \<not> unsafe_url_byte c"
    and p: "\<forall>c\<in>set p. c \<noteq> CHR ''#'' \<and> c \<noteq> CHR ''?'' \<and> \<not> unsafe_url_byte c"
    and start: "p = [] \<or> hd p = CHR ''/''"
    and par: "s \<in> set uses_params \<longrightarrow> CHR '';'' \<notin> set (last_segment p)"
    by (simp_all add: plain_rest_def)
  have "\<forall>c\<in>set (CHR '':'' # CHR ''/'' # CHR ''/'' # n @ p). \<not> unsafe_url_byte c"
    using n p by (auto simp: unsafe_url_byte_def)
  from clean_canonical [OF gs this]
  have clean: "filter (\<lambda>c. \<not> unsafe_url_byte c) (dropWhile c0_control_or_space ?u) = ?u" .
  have ss: "split_scheme ?u = (s, CHR ''/'' # CHR ''/'' # n @ p)"
    by (rule split_scheme_canonical [OF gs])
  have tp: "takeWhile ?nd p = []" using start by (cases p) auto
  have dp: "dropWhile ?nd p = p" using start by (cases p) auto
  have tw: "takeWhile ?nd (n @ p) = n"
    using takeWhile_append_all [of n ?nd p] n tp by auto
  have dw: "dropWhile ?nd (n @ p) = p"
    using dropWhile_append_all [of n ?nd p] n dp by auto
  have nr: "(if take 2 (CHR ''/'' # CHR ''/'' # n @ p) = ''//''
             then splitnetloc (CHR ''/'' # CHR ''/'' # n @ p) else ([], CHR ''/'' # CHR ''/'' # n @ p))
            = (n, p)"
    unfolding splitnetloc_slashes tw dw by simp
  have h: "CHR ''#'' \<notin> set p" and q: "CHR ''?'' \<notin> set p" using p by blast+
  have pp: "(if s \<in> set uses_params \<and> CHR '';'' \<in> set p then splitparams p else (p, [])) = (p, [])"
    using par by (auto simp: splitparams_none)
  have "urlparse chk ?u = Inr \<lparr>scheme = s, netloc = n, path = p, params = [], query = [], fragment = []\<rparr>"
    unfolding urlparse_stages clean ss fst_conv snd_conv nr
    using h q valid par by (auto simp: splitparams_none)
  then show ?thesis by simp
qed



text \<open>
  Claim C9. The canonical form is built from absolute URLs: \<open>find_lot_links\<close>
  canonicalizes the result of \<open>urljoin\<close> against the absolute base URL, and only when
  its network location contains the name of the listing host. For every URL that
  \<open>urlparse\<close> accepts and that has a scheme and a network location, the canonical form
  is a fixed point: canonicalizing it raises nothing and gives the same string, so
  \<open>canonical (canonical u) = canonical u\<close>. (Strings are taken over the characters
  below 256.)
\<close>

theorem canonical_idempotent:
  assumes "urlparse chk u = Inr parsed" and "scheme parsed \<noteq> []" and "netloc parsed \<noteq> []"
  shows "canonical chk u = Inr (canonical_form parsed) \<and>
         canonical chk (canonical_form parsed) = Inr (canonical_form parsed)"
proof -
  note pr = urlparse_plain [OF assms(1)]
  from urlparse_canonical [OF pr(1) [OF assms(2)] pr(2) assms(3) pr(3)]
  have "urlparse chk (canonical_form parsed) =
    Inr \<lparr>scheme = scheme parsed, netloc = netloc parsed, path = path parsed, params = [],
         query = [], fragment = []\<rparr>"
    by (simp add: canonical_form_def)
  then show ?thesis by (simp add: canonical_def assms(1) canonical_form_def)
qed

theorem canonical_idempotent_witness:
  "urlparse reject_bracketed absolute_lot =
     Inr \<lparr>scheme = ''https'', netloc = ''online.auctionhouse.co.uk'', path = ''/lot/details/12'',
          params = ''v=2'', query = ''ref=home'', fragment = ''photos''\<rparr> \<and>
   canonical reject_bracketed absolute_lot = Inr ''https://online.auctionhouse.co.uk/lot/details/12'' \<and>
   canonical reject_bracketed ''https://online.auctionhouse.co.uk/lot/details/12'' =
     Inr ''https://online.auctionhouse.co.uk/lot/details/12''"
proof -
  have p: "urlparse reject_bracketed absolute_lot =
     Inr \<lparr>scheme = ''https'', netloc = ''online.auctionhouse.co.uk'', path = ''/lot/details/12'',
          params = ''v=2'', query = ''ref=home'', fragment = ''photos''\<rparr>"
    by code_simp
  from canonical_idempotent [OF p] p show ?thesis by (simp add: canonical_form_def)
qed

section \<open>Properties of landing-page link discovery\<close>



lemma filter_insert_seen:
  "filter (\<lambda>y. y \<noteq> x) (filter (\<lambda>c. c \<notin> seen) cs) = filter (\<lambda>c. c \<notin> insert x seen) cs"
  by (induction cs) auto






text \<open>A link that \<open>urljoin\<close> and \<open>urlparse\<close> refuse makes link discovery raise.\<close>

lemma find_lot_links_bracket_example:
  "find_lot_links reject_bracketed example_hrefs example_urljoin ''bracket'' NATIONAL_URL =
     Inl ValueError"
  by code_simp

section \<open>Properties of sitemap discovery\<close>

lemma sitemap_loop_rule:
  assumes "I s"
    and cont: "\<And>s s'. I s \<Longrightarrow> to_visit s \<noteq> [] \<Longrightarrow>
        sitemap_step chk net fromstring max_nested s = (None, s') \<Longrightarrow> I s'"
    and stop: "\<And>s err s'. I s \<Longrightarrow> to_visit s \<noteq> [] \<Longrightarrow>
        sitemap_step chk net fromstring max_nested s = (Some err, s') \<Longrightarrow> Q err s'"
  shows "case sitemap_loop chk net fromstring max_nested s of
           (None, s') \<Rightarrow> I s' \<and> to_visit s' = []
         | (Some err, s') \<Rightarrow> Q err s'"
  using assms
proof (induction chk net fromstring max_nested s rule: sitemap_loop.induct)
  case (1 chk net fromstring max_nested s)
  note I = "1.prems"(1) and cont = "1.prems"(2) and stop = "1.prems"(3)
  show ?case
  proof (cases "to_visit s = []")
    case True
    with I show ?thesis by (subst sitemap_loop.simps) simp
  next
    case False
    obtain r s' where st: "sitemap_step chk net fromstring max_nested s = (r, s')" by force
    show ?thesis
    proof (cases r)
      case None
      from cont [OF I False st [unfolded None]] have "I s'" .
      from "1.IH" [OF False st [symmetric, unfolded None] refl this cont stop] show ?thesis
        by (subst sitemap_loop.simps) (simp add: False st None)
    next
      case (Some err)
      from stop [OF I False st [unfolded Some]] show ?thesis
        by (subst sitemap_loop.simps) (simp add: False st Some)
    qed
  qed
qed

lemma add_property_urls_set:
  "add_property_urls chk locs urls = Inr urls' \<Longrightarrow>
     fset urls' = fset urls \<union> set (listing_urls chk locs)"
proof (induction locs arbitrary: urls)
  case Nil
  then show ?case by (simp add: listing_urls_def)
next
  case (Cons loc locs)
  show ?case
  proof (cases "strip (or_empty loc) = []")
    case True
    with Cons show ?thesis by (simp add: listing_urls_def)
  next
    case False
    with Cons.prems obtain looks where
      l: "looks_like_property_url chk (strip (or_empty loc)) = Inr looks"
      by (auto simp: Let_def split: sum.splits)
    show ?thesis
    proof (cases looks)
      case True
      with Cons.prems False l
      have "add_property_urls chk locs (finsert (strip (or_empty loc)) urls) = Inr urls'"
        by (simp add: Let_def)
      from Cons.IH [OF this] False l True show ?thesis
        by (auto simp: listing_urls_def)
    next
      case no: False
      with Cons.prems False l have "add_property_urls chk locs urls = Inr urls'"
        by (simp add: Let_def)
      from Cons.IH [OF this] False l no show ?thesis
        by (auto simp: listing_urls_def)
    qed
  qed
qed

lemma sitemap_step_skip:
  "last (to_visit s) |\<in>| visited s \<Longrightarrow>
   sitemap_step chk net fromstring max_nested s = (None, s\<lparr>to_visit := butlast (to_visit s)\<rparr>)"
  by (simp add: sitemap_step_def Let_def)

lemma sitemap_step_fetch:
  assumes "last (to_visit s) |\<notin>| visited s"
    and "sitemap_step chk net fromstring max_nested s = (r, s')"
  shows "visited s' = finsert (last (to_visit s)) (visited s)"
    and "fetched s' = fetched s @ [(last (to_visit s), fst (fetch_text net (last (to_visit s)) 3 (session s)))]"
    and "r = None \<Longrightarrow> fset (property_urls s') = fset (property_urls s)
           \<union> set (leaf_listing_urls chk fromstring (fst (fetch_text net (last (to_visit s)) 3 (session s))))"
    and "fst (fetch_text net (last (to_visit s)) 3 (session s)) = Inl err \<Longrightarrow> r = Some err"
  using assms
  by (auto simp: sitemap_step_def Let_def leaf_listing_urls_def dest!: add_property_urls_set
      split: prod.splits sum.splits option.splits if_splits)

lemma visited_leaf_urls_snoc:
  "visited_leaf_urls chk fromstring (calls @ [(u, r)])
     = visited_leaf_urls chk fromstring calls @ leaf_listing_urls chk fromstring r"
  by (simp add: visited_leaf_urls_def)

lemma sitemap_step_distinct:
  assumes ok: "traversal_ok chk fromstring s"
    and st: "sitemap_step chk net fromstring max_nested s = (r, s')"
  shows "distinct (map fst (fetched s')) \<and> (\<forall>c\<in>set (fetched s'). fst c |\<in>| visited s')"
proof (cases "last (to_visit s) |\<in>| visited s")
  case True
  with st ok show ?thesis by (fastforce simp: sitemap_step_skip traversal_ok_def)
next
  case False
  note f = sitemap_step_fetch [OF False st]
  from ok False have new: "last (to_visit s) \<notin> fst ` set (fetched s)"
    by (fastforce simp: traversal_ok_def)
  show ?thesis
    unfolding f(1,2) using ok new by (fastforce simp: traversal_ok_def)
qed

lemma sitemap_step_ok:
  assumes ok: "traversal_ok chk fromstring s"
    and st: "sitemap_step chk net fromstring max_nested s = (None, s')"
  shows "traversal_ok chk fromstring s'"
proof (cases "last (to_visit s) |\<in>| visited s")
  case True
  with st ok show ?thesis by (fastforce simp: sitemap_step_skip traversal_ok_def)
next
  case False
  note f = sitemap_step_fetch [OF False st]
  note d = sitemap_step_distinct [OF ok st]
  from ok have "fset (property_urls s) = set (visited_leaf_urls chk fromstring (fetched s))"
    by (simp add: traversal_ok_def)
  with f(3) [OF refl]
  have "fset (property_urls s') = set (visited_leaf_urls chk fromstring (fetched s'))"
    unfolding f(2) visited_leaf_urls_snoc by simp
  with d show ?thesis by (simp add: traversal_ok_def)
qed

lemma sitemap_loop_result:
  assumes "traversal_ok chk fromstring s"
  shows "case sitemap_loop chk net fromstring max_nested s of
           (None, s') \<Rightarrow> traversal_ok chk fromstring s' \<and> to_visit s' = []
         | (Some err, s') \<Rightarrow> distinct (map fst (fetched s'))"
  using assms
  by (rule sitemap_loop_rule) (auto intro: sitemap_step_ok dest: sitemap_step_distinct)

lemma iter_sitemap_result:
  "case iter_sitemap_property_urls chk net fromstring root_sitemap max_nested hist of
     (Inr urls, s') \<Rightarrow> traversal_ok chk fromstring s' \<and> urls = sorted_list_of_fset (property_urls s')
   | (Inl err, s') \<Rightarrow> distinct (map fst (fetched s'))"
proof -
  have "traversal_ok chk fromstring \<lparr>to_visit = [root_sitemap], visited = {||}, property_urls = {||},
              session = hist, fetched = []\<rparr>"
    by (simp add: traversal_ok_def visited_leaf_urls_def)
  from sitemap_loop_result [OF this, of net max_nested] show ?thesis
    by (auto simp: iter_sitemap_property_urls_def split: prod.splits option.splits)
qed

text \<open>
  Claim C6. Whatever the network answers and whatever the sitemap documents contain
  (documents that refer to each other in a cycle, documents listed by several indexes),
  the traversal calls \<open>fetch_text\<close> at most once for each sitemap URL: the URLs of the
  calls it made, in order, are distinct. This holds when the traversal returns and when
  it raises.
\<close>

theorem sitemap_fetched_once:
  "distinct (map fst (fetched (snd
     (iter_sitemap_property_urls check_bracketed net fromstring root_sitemap max_nested hist))))"
  using iter_sitemap_result [where chk = check_bracketed and net = net and fromstring = fromstring
      and root_sitemap = root_sitemap and max_nested = max_nested and hist = hist]
  by (auto simp: traversal_ok_def split: prod.splits sum.splits)

text \<open>
  Claim C2 does not hold of the code. On \<open>broken_site\<close> the root index lists two
  sitemaps; the fetch of the second one, which is not the root, fails three times. The
  traversal does not skip it and go on to the other sitemap: \<open>fetch_text\<close> is called
  outside the \<open>try\<close>, its \<open>RuntimeError\<close> leaves the function with the first sitemap still
  on the stack, and \<open>run\<close> returns 1 without writing a file. The paths next to it do
  skip: on \<open>unparsable_site\<close>, where the same document is fetched but is not XML, the
  traversal goes on and returns the URLs of the other sitemap, and \<open>run\<close> skips a
  property page that cannot be fetched.
\<close>

theorem sitemap_nested_failure_aborts:
  "sitemap_b \<noteq> root_url \<and>
   fst (iter_sitemap_property_urls reject_bracketed broken_site example_fromstring root_url 100 []) =
     Inl (RuntimeError sitemap_b (Some ''HTTP 503'')) \<and>
   map fst (fetched (snd
     (iter_sitemap_property_urls reject_bracketed broken_site example_fromstring root_url 100 [])))
     = [root_url, sitemap_b] \<and>
   to_visit (snd
     (iter_sitemap_property_urls reject_bracketed broken_site example_fromstring root_url 100 []))
     = [sitemap_a] \<and>
   run reject_bracketed broken_site example_fromstring example_extract example_sleep root_url
     None True 0 [] = (Inr 1, None) \<and>
   fst (iter_sitemap_property_urls reject_bracketed unparsable_site example_fromstring root_url 100 []) =
     Inr [''https://www.auctionhouse.co.uk/property/1'',
          ''https://www.auctionhouse.co.uk/property/2'']"
  by code_simp

text \<open>
  Claim C8 as stated fails: the URLs are not put in canonical form and are not
  deduplicated on it. A sitemap with two entries that differ only in their query gives
  both entries, query included; they have the same canonical form.
\<close>

theorem sitemap_not_canonical_counterexample:
  "fst (iter_sitemap_property_urls reject_bracketed query_site example_fromstring root_url 100 []) =
     Inr [''https://www.auctionhouse.co.uk/property/1?ref=a'',
          ''https://www.auctionhouse.co.uk/property/1?ref=b''] \<and>
   canonical reject_bracketed ''https://www.auctionhouse.co.uk/property/1?ref=a'' =
     Inr ''https://www.auctionhouse.co.uk/property/1'' \<and>
   canonical reject_bracketed ''https://www.auctionhouse.co.uk/property/1?ref=b'' =
     Inr ''https://www.auctionhouse.co.uk/property/1''"
  by code_simp

text \<open>
  Claim C8, amended. When discovery returns, its result is sorted and free of
  duplicates, and its elements are exactly the entries, with surrounding whitespace
  removed and as they are written otherwise, that are not empty, that \<open>urlparse\<close>
  accepts, whose lower-cased path contains \<open>/property/\<close> or \<open>/properties/\<close>, and that
  stand in a fetched document that parsed and is not a sitemap index. Duplicates are
  equal strings; nothing is canonicalized. (Discovery does not return when a fetch fails
  or when \<open>urlparse\<close> refuses an entry.)
\<close>

theorem sitemap_discovery_result:
  assumes "fst (iter_sitemap_property_urls check_bracketed net fromstring root_sitemap max_nested hist)
     = Inr urls"
  shows "sorted urls \<and> distinct urls \<and>
    set urls = set (visited_leaf_urls check_bracketed fromstring (fetched (snd
      (iter_sitemap_property_urls check_bracketed net fromstring root_sitemap max_nested hist))))"
proof -
  obtain s where res: "iter_sitemap_property_urls check_bracketed net fromstring root_sitemap max_nested hist
      = (Inr urls, s)"
    using assms
    by (cases "iter_sitemap_property_urls check_bracketed net fromstring root_sitemap max_nested hist") auto
  with iter_sitemap_result [where chk = check_bracketed and net = net and fromstring = fromstring
      and root_sitemap = root_sitemap and max_nested = max_nested and hist = hist]
  have ok: "traversal_ok check_bracketed fromstring s"
    and urls: "urls = sorted_list_of_fset (property_urls s)"
    by simp_all
  from ok have "fset (property_urls s) = set (visited_leaf_urls check_bracketed fromstring (fetched s))"
    by (simp add: traversal_ok_def)
  then show ?thesis
    by (simp add: urls res sorted_list_of_fset.rep_eq)
qed

text \<open>
  The scenario of the specification: an index with two leaves that hold two and one
  listing URLs (and other entries) gives exactly the three URLs, sorted.
\<close>

theorem sitemap_discovery_result_witness:
  "fst (iter_sitemap_property_urls reject_bracketed example_site example_fromstring root_url 100 []) =
     Inr [''https://www.auctionhouse.co.uk/properties/3'',
          ''https://www.auctionhouse.co.uk/property/1'',
          ''https://www.auctionhouse.co.uk/property/2''] \<and>
   sorted [''https://www.auctionhouse.co.uk/properties/3'',
          ''https://www.auctionhouse.co.uk/property/1'',
          ''https://www.auctionhouse.co.uk/property/2''] \<and>
   map fst (fetched (snd
     (iter_sitemap_property_urls reject_bracketed example_site example_fromstring root_url 100 [])))
     = [root_url, sitemap_b, sitemap_a]"
proof -
  have r: "fst (iter_sitemap_property_urls reject_bracketed example_site example_fromstring root_url 100 []) =
     Inr [''https://www.auctionhouse.co.uk/properties/3'',
          ''https://www.auctionhouse.co.uk/property/1'',
          ''https://www.auctionhouse.co.uk/property/2'']"
    by code_simp
  have f: "map fst (fetched (snd
     (iter_sitemap_property_urls reject_bracketed example_site example_fromstring root_url 100 [])))
     = [root_url, sitemap_b, sitemap_a]"
    by code_simp
  from r f sitemap_discovery_result [OF r] show ?thesis by simp
qed

text \<open>
  An entry that \<open>urlparse\<close> refuses makes discovery raise \<open>ValueError\<close>, and \<open>run\<close>
  return 1 without a file.
\<close>

lemma sitemap_bracket_example:
  "fst (iter_sitemap_property_urls reject_bracketed bracket_site example_fromstring root_url 100 []) =
     Inl ValueError"
  "run reject_bracketed bracket_site example_fromstring example_extract example_sleep root_url
     None True 0 [] = (Inr 1, None)"
  by code_simp+

section \<open>Properties of the export\<close>








text \<open>
  A run on the example site: the page of the first property says that it is sold, the
  page of the third cannot be fetched. Without \<open>include_sold\<close> the file holds the second
  property only, with it the first and the second; when discovery fails, no file; and
  with a negative delay the run ends with the \<open>ValueError\<close> of \<open>time.sleep\<close>, also
  without a file.
\<close>

lemma run_example:
  "run reject_bracketed property_site example_fromstring example_extract example_sleep root_url
     None False 0 [] =
     (Inr 0, Some [[''url'', ''title'', ''address'', ''guide_price'', ''status'', ''auction_date'', ''lot_number''],
               [''https://www.auctionhouse.co.uk/property/2'', ''2 High Street'', [], ''150,000'',
                [], [], []]])"
  "run reject_bracketed property_site example_fromstring example_extract example_sleep root_url
     None True 0 [] =
     (Inr 0, Some [[''url'', ''title'', ''address'', ''guide_price'', ''status'', ''auction_date'', ''lot_number''],
               [''https://www.auctionhouse.co.uk/property/1'', ''1 High Street'', [], ''100,000'',
                ''Sold STC'', [], []],
               [''https://www.auctionhouse.co.uk/property/2'', ''2 High Street'', [], ''150,000'',
                [], [], []]])"
  "run reject_bracketed broken_site example_fromstring example_extract example_sleep root_url
     None True 0 [] = (Inr 1, None)"
  "run reject_bracketed property_site example_fromstring example_extract example_sleep root_url
     None True (- 1) [] = (Inl ValueError, None)"
  by code_simp+

end
